theory Spec2Isabelle
  imports Complex_Main
begin

section \<open>The rule catalog\<close>

text \<open>
  The adaptive rule engine of the word-game moderator (the module imported as
  \<^verbatim>\<open>./rules\<close>). A \<^verbatim>\<open>Rule\<close> object has the fields \<^verbatim>\<open>id\<close>, \<^verbatim>\<open>name\<close>,
  \<^verbatim>\<open>description\<close>, \<^verbatim>\<open>check\<close>, \<^verbatim>\<open>conflictsWith?\<close> and \<^verbatim>\<open>difficulty\<close>. The field
  \<^verbatim>\<open>id\<close> is written \<open>id'\<close> (the name \<open>id\<close> is the identity function of HOL). The
  optional field \<^verbatim>\<open>conflictsWith\<close> is an option. The \<^verbatim>\<open>check\<close> capabilities need
  the Slack client, the word list and Unicode case mapping; they are a parameter of
  the evaluator below and not a field of the record.
\<close>

record rule =
  id' :: string
  name :: string
  description :: string
  conflictsWith :: "string list option"
  difficulty :: int

text \<open>The array literal \<^verbatim>\<open>rules\<close>, before the conflict pairs are resolved.\<close>

definition ruleLiterals :: "rule list" where
  "ruleLiterals =
    [\<lparr>id' = ''all-lowercase'', name = ''Lowercase messages'',
       description = ''all messages must be in lowercase. stay calm.'',
       conflictsWith = None, difficulty = 1\<rparr>,
     \<lparr>id' = ''all-uppercase'', name = ''Uppercase messages'',
       description = ''ALL MESSAGES MUST BE IN UPPERCASE. SHOUTING IS ENCOURAGED!'',
       conflictsWith = None, difficulty = 1\<rparr>,
     \<lparr>id' = ''only-emojis'', name = ''Only emojis'',
       description = '':rocket: :100: :fire:'',
       conflictsWith = None, difficulty = 2\<rparr>,
     \<lparr>id' = ''unique-messages'', name = ''Unique messages'',
       description = ''Be original! No messages should be returned by a search in this workspace.'',
       conflictsWith = None, difficulty = 5\<rparr>,
     \<lparr>id' = ''no-common-words'', name = ''No common words'',
       description = ''Cultivate novelty! Messages exclude English's 1000 commonest vocables.'',
       conflictsWith = None, difficulty = 4\<rparr>,
     \<lparr>id' = ''never-repeats-letters'', name = ''Never repeats letters'',
       description = ''No letter should be repeated in a message.'',
       conflictsWith = None, difficulty = 5\<rparr>,
     \<lparr>id' = ''every-letter'', name = ''Every letter'',
       description = ''Every letter in the English alphabet should appear at least once in a message.'',
       conflictsWith = None, difficulty = 4\<rparr>,
     \<lparr>id' = ''no-spaces'', name = ''No spaces'',
       description = ''Messages should not contain any spaces.'',
       conflictsWith = None, difficulty = 3\<rparr>,
     \<lparr>id' = ''no-punctuation'', name = ''No punctuation'',
       description = ''Messages should not contain any punctuation.'',
       conflictsWith = None, difficulty = 2\<rparr>]"

definition conflicts :: "(string \<times> string) list" where
  "conflicts =
    [(''all-lowercase'', ''all-uppercase''),
     (''only-emojis'', ''all-lowercase''),
     (''only-emojis'', ''all-uppercase''),
     (''only-emojis'', ''no-common-words''),
     (''only-emojis'', ''never-repeats-letters''),
     (''only-emojis'', ''every-letter''),
     (''only-emojis'', ''no-spaces''),
     (''only-emojis'', ''no-punctuation''),
     (''never-repeats-letters'', ''every-letter''),
     (''no-common-words'', ''no-spaces'')]"

text \<open>
  \<^verbatim>\<open>rules.find(rule => rule.id === i)\<close>: the first rule of the array with that id,
  \<open>None\<close> for \<^verbatim>\<open>undefined\<close>.
\<close>

definition findRule :: "rule list \<Rightarrow> string \<Rightarrow> rule option" where
  "findRule rs i = find (\<lambda>r. id' r = i) rs"

text \<open>
  \<^verbatim>\<open>r.conflictsWith ??= []; r.conflictsWith.push(c)\<close> on the object that
  \<^verbatim>\<open>find\<close> returned for the id \<open>i\<close>: the first rule with that id is updated in place.
\<close>

fun pushConflict :: "string \<Rightarrow> string \<Rightarrow> rule list \<Rightarrow> rule list" where
  "pushConflict i c [] = []"
| "pushConflict i c (r # rs) =
     (if id' r = i
      then r\<lparr>conflictsWith :=
               Some ((case conflictsWith r of None \<Rightarrow> [] | Some cs \<Rightarrow> cs) @ [c])\<rparr> # rs
      else r # pushConflict i c rs)"

text \<open>
  The body of \<^verbatim>\<open>conflicts.forEach\<close>: a pair naming an unknown id is logged and skipped,
  otherwise each of the two rules records the other.
\<close>

definition resolveConflict :: "rule list \<Rightarrow> string \<times> string \<Rightarrow> rule list" where
  "resolveConflict rs p =
     (case p of (rule1ID, rule2ID) \<Rightarrow>
        (if findRule rs rule1ID = None \<or> findRule rs rule2ID = None then rs
         else pushConflict rule2ID rule1ID (pushConflict rule1ID rule2ID rs)))"

text \<open>The catalog \<^verbatim>\<open>rules\<close> as the rest of the module sees it.\<close>

definition rules :: "rule list" where
  "rules = foldl resolveConflict ruleLiterals conflicts"

section \<open>Rulesets\<close>

text \<open>
  The functions of the module read the catalog from the variable \<^verbatim>\<open>rules\<close>. Here the
  catalog is their first argument \<open>rs\<close>; the module runs them on \<open>rules\<close>.

  A \<^verbatim>\<open>Set<string>\<close> keeps its members in insertion order: it is a list without
  repetitions. \<open>Set_add\<close>, \<open>Set_delete\<close> and \<open>new_Set\<close> are \<^verbatim>\<open>add\<close>, \<^verbatim>\<open>delete\<close> and
  \<^verbatim>\<open>new Set(iterable)\<close>; \<^verbatim>\<open>has\<close> is membership in \<open>set\<close>.
\<close>

definition Set_add :: "string list \<Rightarrow> string \<Rightarrow> string list" where
  "Set_add s x = (if x \<in> set s then s else s @ [x])"

definition Set_delete :: "string list \<Rightarrow> string \<Rightarrow> string list" where
  "Set_delete s x = removeAll x s"

definition new_Set :: "string list \<Rightarrow> string list" where
  "new_Set xs = foldl Set_add [] xs"

text \<open>
  The exceptions of the search and of the controller are all \<^verbatim>\<open>TypeError\<close>s (a
  property read on \<^verbatim>\<open>undefined\<close>); \<open>CheckError\<close> is whatever a rule's check throws
  or rejects with. \<^verbatim>\<open>Math.random()\<close> is an explicit list of draws, consumed from the
  front; \<open>DrawsExhausted\<close> says that the list ended before the code returned, so a loop
  that never finds an accepted draw does not return a value.
\<close>

datatype error = TypeError | DrawsExhausted | CheckError

definition conflictsOf :: "rule \<Rightarrow> string list" where
  "conflictsOf r = (case conflictsWith r of None \<Rightarrow> [] | Some cs \<Rightarrow> cs)"

definition isValidRuleset :: "rule list \<Rightarrow> string list \<Rightarrow> bool" where
  "isValidRuleset rs ruleset =
     (let conflicts = concat (map conflictsOf (filter (\<lambda>r. id' r \<in> set ruleset) rs))
      in \<not> list_ex (\<lambda>conflict. conflict \<in> set ruleset) conflicts)"

text \<open>
  \<^verbatim>\<open>calculateDifficulty\<close>: \<^verbatim>\<open>find(...)!.difficulty\<close> throws for an id that is not in the
  catalog; the weights are summed by \<^verbatim>\<open>reduce\<close> from 0.
\<close>

definition calculateDifficulty :: "rule list \<Rightarrow> string list \<Rightarrow> error + int" where
  "calculateDifficulty rs ruleset =
     (case those (map (\<lambda>i. map_option difficulty (findRule rs i)) ruleset) of
        None \<Rightarrow> Inl TypeError
      | Some ws \<Rightarrow> Inr (foldl (\<lambda>acc val. acc + val) 0 ws))"

definition getAdditionalValidRules :: "rule list \<Rightarrow> string list \<Rightarrow> string list" where
  "getAdditionalValidRules rs currentRuleset =
     new_Set (map id'
       (filter (\<lambda>r. id' r \<notin> set currentRuleset
                   \<and> isValidRuleset rs (new_Set (currentRuleset @ [id' r]))) rs))"

text \<open>
  \<^verbatim>\<open>arr[Math.floor(Math.random() * arr.length)]\<close> for the draw \<open>u\<close>: \<open>None\<close> is
  \<^verbatim>\<open>undefined\<close>, the value of an index outside the array.
\<close>

definition randomElement :: "'a list \<Rightarrow> real \<Rightarrow> 'a option" where
  "randomElement arr u =
     (let i = \<lfloor>u * of_nat (length arr)\<rfloor>
      in if 0 \<le> i \<and> i < int (length arr) then Some (arr ! nat i) else None)"

section \<open>Ruleset search\<close>

definition mutationIterations :: nat where
  "mutationIterations = 15"

definition mutationAmount :: nat where
  "mutationAmount = 3"

text \<open>
  The \<^verbatim>\<open>do ... while(!isValidRuleset(newRuleset))\<close> loop of \<^verbatim>\<open>mutateRuleset\<close>: each
  round restarts from \<^verbatim>\<open>oldRuleset\<close>, draws a rule of the catalog and flips its
  membership. \<^verbatim>\<open>ruleToChange.id\<close> throws when the index is outside the catalog.
\<close>

fun toggleUntilValid ::
  "rule list \<Rightarrow> string list \<Rightarrow> real list \<Rightarrow> error + (string list \<times> real list)" where
  "toggleUntilValid rs oldRuleset [] = Inl DrawsExhausted"
| "toggleUntilValid rs oldRuleset (u # us) =
     (case randomElement rs u of
        None \<Rightarrow> Inl TypeError
      | Some ruleToChange \<Rightarrow>
          (let newRuleset =
                 (if id' ruleToChange \<in> set (new_Set oldRuleset)
                  then Set_delete (new_Set oldRuleset) (id' ruleToChange)
                  else Set_add (new_Set oldRuleset) (id' ruleToChange))
           in if isValidRuleset rs newRuleset then Inr (newRuleset, us)
              else toggleUntilValid rs oldRuleset us))"

text \<open>The \<^verbatim>\<open>for\<close> loop of \<^verbatim>\<open>mutateRuleset\<close>; the number is \<^verbatim>\<open>amount - i\<close>.\<close>

fun mutateLoop ::
  "rule list \<Rightarrow> string list \<Rightarrow> nat \<Rightarrow> real list \<Rightarrow> error + (string list \<times> real list)" where
  "mutateLoop rs newRuleset 0 us = Inr (newRuleset, us)"
| "mutateLoop rs newRuleset (Suc n) us =
     (case toggleUntilValid rs (new_Set newRuleset) us of
        Inl e \<Rightarrow> Inl e
      | Inr (newRuleset', us') \<Rightarrow> mutateLoop rs newRuleset' n us')"

definition mutateRuleset ::
  "rule list \<Rightarrow> string list \<Rightarrow> nat \<Rightarrow> real list \<Rightarrow> error + (string list \<times> real list)" where
  "mutateRuleset rs currentRuleset amount us = mutateLoop rs (new_Set currentRuleset) amount us"

text \<open>
  \<^verbatim>\<open>Array.from({ length: n }, () => mutateRuleset(currentRuleset, mutationAmount))\<close>:
  the candidates are generated one after the other from the same draws.
\<close>

fun mutatedRulesets ::
  "rule list \<Rightarrow> string list \<Rightarrow> nat \<Rightarrow> real list \<Rightarrow> error + (string list list \<times> real list)" where
  "mutatedRulesets rs currentRuleset 0 us = Inr ([], us)"
| "mutatedRulesets rs currentRuleset (Suc n) us =
     (case mutateRuleset rs currentRuleset mutationAmount us of
        Inl e \<Rightarrow> Inl e
      | Inr (m, us') \<Rightarrow>
          (case mutatedRulesets rs currentRuleset n us' of
             Inl e \<Rightarrow> Inl e
           | Inr (ms, us'') \<Rightarrow> Inr (m # ms, us'')))"

text \<open>
  \<^verbatim>\<open>.filter(ruleset => keep (calculateDifficulty(ruleset)) (calculateDifficulty(currentRuleset)))\<close>:
  both difficulties are computed for every candidate, and either can throw.
\<close>

fun filterByDifficulty ::
  "(int \<Rightarrow> int \<Rightarrow> bool) \<Rightarrow> rule list \<Rightarrow> string list \<Rightarrow> string list list
     \<Rightarrow> error + string list list" where
  "filterByDifficulty keep rs currentRuleset [] = Inr []"
| "filterByDifficulty keep rs currentRuleset (c # cs) =
     (case calculateDifficulty rs c of
        Inl e \<Rightarrow> Inl e
      | Inr dc \<Rightarrow>
          (case calculateDifficulty rs currentRuleset of
             Inl e \<Rightarrow> Inl e
           | Inr dcur \<Rightarrow>
               (case filterByDifficulty keep rs currentRuleset cs of
                  Inl e \<Rightarrow> Inl e
                | Inr kept \<Rightarrow> Inr (if keep dc dcur then c # kept else kept))))"

text \<open>
  The difficulty as a number, for the comparators of \<^verbatim>\<open>sort\<close>: they run only on
  candidates that passed the filter, where \<^verbatim>\<open>calculateDifficulty\<close> has returned.
\<close>

definition difficultyOf :: "rule list \<Rightarrow> string list \<Rightarrow> int" where
  "difficultyOf rs ruleset = (case calculateDifficulty rs ruleset of Inr d \<Rightarrow> d | Inl e \<Rightarrow> 0)"

subsection \<open>Array.prototype.sort\<close>

text \<open>
  \<^verbatim>\<open>sort\<close> is part of the JavaScript runtime and not of this module. ECMAScript fixes
  its result only for a consistent comparator; otherwise the order is left to the
  implementation. The model follows the engine under Node.js (V8, \<^verbatim>\<open>third_party/v8/builtins/array-sort.tq\<close>)
  on arrays of fewer than 64 elements, where the minimal run length is the whole array:
  \<^verbatim>\<open>CountAndMakeRun\<close> finds the run at the start of the array (reversing it when it is
  strictly descending) and \<^verbatim>\<open>BinaryInsertionSort\<close> inserts the remaining elements.
  The comparator is called as \<^verbatim>\<open>comparefn(later, earlier)\<close>.
\<close>

fun countRun :: "('a \<Rightarrow> 'a \<Rightarrow> int) \<Rightarrow> bool \<Rightarrow> 'a \<Rightarrow> 'a list \<Rightarrow> nat" where
  "countRun comparefn isDescending previousElement [] = 0"
| "countRun comparefn isDescending previousElement (currentElement # xs) =
     (let order = comparefn currentElement previousElement
      in if (if isDescending then order \<ge> 0 else order < 0) then 0
         else Suc (countRun comparefn isDescending currentElement xs))"

definition countAndMakeRun :: "('a \<Rightarrow> 'a \<Rightarrow> int) \<Rightarrow> 'a list \<Rightarrow> 'a list \<times> 'a list" where
  "countAndMakeRun comparefn xs =
     (case xs of
        elementHigh # elementLow # rest \<Rightarrow>
          (let isDescending = comparefn elementLow elementHigh < 0;
               runLength = 2 + countRun comparefn isDescending elementLow rest
           in (if isDescending then rev (take runLength xs) else take runLength xs,
               drop runLength xs))
      | _ \<Rightarrow> (xs, []))"

function binarySearch :: "('a \<Rightarrow> 'a \<Rightarrow> int) \<Rightarrow> 'a \<Rightarrow> 'a list \<Rightarrow> nat \<Rightarrow> nat \<Rightarrow> nat" where
  "binarySearch comparefn pivot work left right =
     (if left < right
      then (let mid = left + (right - left) div 2
            in if comparefn pivot (work ! mid) < 0
               then binarySearch comparefn pivot work left mid
               else binarySearch comparefn pivot work (mid + 1) right)
      else left)"
  by pat_completeness auto
termination
  by (relation "measure (\<lambda>(comparefn, pivot, work, left, right). right - left)") auto

declare binarySearch.simps [simp del]

definition binaryInsert :: "('a \<Rightarrow> 'a \<Rightarrow> int) \<Rightarrow> 'a list \<Rightarrow> 'a \<Rightarrow> 'a list" where
  "binaryInsert comparefn work pivot =
     (let left = binarySearch comparefn pivot work 0 (length work)
      in take left work @ pivot # drop left work)"

definition arraySort :: "('a \<Rightarrow> 'a \<Rightarrow> int) \<Rightarrow> 'a list \<Rightarrow> 'a list" where
  "arraySort comparefn xs =
     (if length xs < 2 then xs
      else (case countAndMakeRun comparefn xs of
              (run, rest) \<Rightarrow> foldl (binaryInsert comparefn) run rest))"

text \<open>\<^verbatim>\<open>arr.pop()\<close>: the last element, \<open>None\<close> (\<^verbatim>\<open>undefined\<close>) on the empty array.\<close>

definition pop :: "'a list \<Rightarrow> 'a option" where
  "pop xs = (if xs = [] then None else Some (last xs))"

text \<open>
  The \<^verbatim>\<open>while\<close> loop of \<^verbatim>\<open>randomValidRuleset\<close>. An index outside \<^verbatim>\<open>validRules\<close> adds
  \<^verbatim>\<open>undefined\<close> to the set, and the loop condition evaluated next throws in
  \<^verbatim>\<open>calculateDifficulty\<close>.
\<close>

fun growRuleset ::
  "rule list \<Rightarrow> real \<Rightarrow> string list \<Rightarrow> real list \<Rightarrow> error + (string list \<times> real list)" where
  "growRuleset rs roughDifficulty ruleset us =
     (case calculateDifficulty rs ruleset of
        Inl e \<Rightarrow> Inl e
      | Inr d \<Rightarrow>
          (if of_int d < roughDifficulty
           then (let validRules = getAdditionalValidRules rs ruleset
                 in if length validRules = 0 then Inr (ruleset, us)
                    else (case us of
                            [] \<Rightarrow> Inl DrawsExhausted
                          | u # us' \<Rightarrow>
                              (case randomElement validRules u of
                                 None \<Rightarrow> Inl TypeError
                               | Some ruleToAdd \<Rightarrow>
                                   growRuleset rs roughDifficulty (Set_add ruleset ruleToAdd) us')))
           else Inr (ruleset, us)))"

function randomValidRuleset ::
  "rule list \<Rightarrow> real \<Rightarrow> real list \<Rightarrow> nat \<Rightarrow> error + (string list \<times> real list)" where
  "randomValidRuleset rs roughDifficulty us attempt =
     (case growRuleset rs roughDifficulty [] us of
        Inl e \<Rightarrow> Inl e
      | Inr (ruleset, us') \<Rightarrow>
          (if length ruleset = 0 \<and> attempt < 10
           then randomValidRuleset rs roughDifficulty us' (attempt + 1)
           else Inr (ruleset, us')))"
  by pat_completeness auto
termination
  by (relation "measure (\<lambda>(rs, roughDifficulty, us, attempt). 10 - attempt)") auto

declare growRuleset.simps [simp del] randomValidRuleset.simps [simp del]

record mutationResult =
  success :: bool
  ruleset :: "string list"

definition makeEasierRuleset ::
  "rule list \<Rightarrow> string list \<Rightarrow> real list \<Rightarrow> error + (mutationResult \<times> real list)" where
  "makeEasierRuleset rs currentRuleset us =
     (case mutatedRulesets rs currentRuleset mutationIterations us of
        Inl e \<Rightarrow> Inl e
      | Inr (mutated, us') \<Rightarrow>
          (case filterByDifficulty (\<lambda>d dcur. d < dcur) rs currentRuleset mutated of
             Inl e \<Rightarrow> Inl e
           | Inr lower \<Rightarrow>
               (case pop (arraySort
                       (\<lambda>a b. difficultyOf rs currentRuleset - difficultyOf rs a) lower) of
                  None \<Rightarrow> Inr (\<lparr>success = False, ruleset = currentRuleset\<rparr>, us')
                | Some closestRuleset \<Rightarrow>
                    Inr (\<lparr>success = True, ruleset = closestRuleset\<rparr>, us'))))"

definition makeHarderRuleset ::
  "rule list \<Rightarrow> string list \<Rightarrow> real list \<Rightarrow> error + (mutationResult \<times> real list)" where
  "makeHarderRuleset rs currentRuleset us =
     (case mutatedRulesets rs currentRuleset mutationIterations us of
        Inl e \<Rightarrow> Inl e
      | Inr (mutated, us') \<Rightarrow>
          (case filterByDifficulty (\<lambda>d dcur. d > dcur) rs currentRuleset mutated of
             Inl e \<Rightarrow> Inl e
           | Inr higher \<Rightarrow>
               (case pop (arraySort
                       (\<lambda>a b. difficultyOf rs a - difficultyOf rs currentRuleset) higher) of
                  None \<Rightarrow> Inr (\<lparr>success = False, ruleset = currentRuleset\<rparr>, us')
                | Some closestRuleset \<Rightarrow>
                    Inr (\<lparr>success = True, ruleset = closestRuleset\<rparr>, us'))))"

section \<open>The adaptive controller\<close>

record violationRecord =
  violations :: "rule list"

text \<open>
  The module's variables \<^verbatim>\<open>activeRules\<close>, \<^verbatim>\<open>violationHistoryForThisRuleset\<close> and
  \<^verbatim>\<open>lastRulesetChange\<close>; times are \<^verbatim>\<open>Date.now()\<close> milliseconds.
\<close>

record engineState =
  activeRules :: "string list"
  violationHistoryForThisRuleset :: "violationRecord list"
  lastRulesetChange :: int

text \<open>A JavaScript number that may be \<^verbatim>\<open>NaN\<close> (the value of \<^verbatim>\<open>0 / 0\<close>).\<close>

datatype number = NaN | Num real

definition getFailRatio :: "engineState \<Rightarrow> number" where
  "getFailRatio st =
     (let messagesViolatingRules =
            length (filter (\<lambda>r. length (violations r) > 0) (violationHistoryForThisRuleset st))
      in if length (violationHistoryForThisRuleset st) = 0 then NaN
         else Num (of_nat messagesViolatingRules / of_nat (length (violationHistoryForThisRuleset st))))"

text \<open>
  \<^verbatim>\<open>x > c\<close> and \<^verbatim>\<open>x < c\<close> are both false when \<^verbatim>\<open>x\<close> is \<^verbatim>\<open>NaN\<close>. Ratios, draws and
  thresholds are exact real numbers: \<open>evaluateChange\<close> compares ratios of at most 100
  records, which differ from 0.1 and 0.5 by far more than the rounding of a double unless
  they are equal to them.
\<close>

definition numberGreater :: "number \<Rightarrow> real \<Rightarrow> bool" where
  "numberGreater x c = (case x of NaN \<Rightarrow> False | Num v \<Rightarrow> v > c)"

definition numberLess :: "number \<Rightarrow> real \<Rightarrow> bool" where
  "numberLess x c = (case x of NaN \<Rightarrow> False | Num v \<Rightarrow> v < c)"

definition minimumTimeBetweenChanges :: int where
  "minimumTimeBetweenChanges = 1000 * 60 * 5"

definition maximumTimeBetweenChanges :: int where
  "maximumTimeBetweenChanges = 1000 * 60 * 60 * 5"

definition minFailRatio :: real where
  "minFailRatio = 0.1"

definition maxFailRatio :: real where
  "maxFailRatio = 0.5"

definition minimumSampleSize :: nat where
  "minimumSampleSize = 10"

definition maximumMessagesUntilChange :: nat where
  "maximumMessagesUntilChange = 100"

definition changeChance :: real where
  "changeChance = 0.3"

definition completeChangeChance :: real where
  "completeChangeChance = 0.05"

definition initialRoughDifficulty :: int where
  "initialRoughDifficulty = 6"

text \<open>
  The \<^verbatim>\<open>reason\<close> strings that \<^verbatim>\<open>updateRules\<close> is called with, in the order of the
  source: the initial ruleset, a long time since the last change, a lot of messages,
  easier not possible, easier, harder not possible, harder, by chance.
\<close>

datatype reason =
  InitialRuleset | LongTime | ManyMessages | EasierFallback | MadeEasier
  | HarderFallback | MadeHarder | ByChance

text \<open>
  \<^verbatim>\<open>updateRules\<close> up to its first \<^verbatim>\<open>await\<close>: the part that runs inside the caller and
  writes the engine's variables; \<open>now'\<close> is the \<^verbatim>\<open>Date.now()\<close> it reads. What follows
  only posts to Slack.
\<close>

definition updateRules :: "string list \<Rightarrow> int \<Rightarrow> engineState \<Rightarrow> engineState" where
  "updateRules newRuleset now' st =
     \<lparr>activeRules = foldl Set_add [] (new_Set newRuleset),
      violationHistoryForThisRuleset = [],
      lastRulesetChange = now'\<rparr>"

text \<open>
  What a call of \<^verbatim>\<open>evaluateChange\<close> leaves behind: the engine's variables, the
  replacement it made (the reason and the ruleset passed to \<^verbatim>\<open>updateRules\<close>), the
  value that \<^verbatim>\<open>getFailRatio()\<close> returned when the call reached it, and the draws not
  yet consumed.
\<close>

record outcome =
  engine :: engineState
  replacement :: "(reason \<times> string list) option"
  failRatioRead :: "number option"
  drawsLeft :: "real list"

definition noChange :: "engineState \<Rightarrow> number option \<Rightarrow> real list \<Rightarrow> error + outcome" where
  "noChange st fr us =
     Inr \<lparr>engine = st, replacement = None, failRatioRead = fr, drawsLeft = us\<rparr>"

definition replaceWith ::
  "reason \<Rightarrow> string list \<Rightarrow> int \<Rightarrow> engineState \<Rightarrow> number option \<Rightarrow> real list
     \<Rightarrow> error + outcome" where
  "replaceWith why newRuleset now' st fr us =
     Inr \<lparr>engine = updateRules newRuleset now' st, replacement = Some (why, newRuleset),
          failRatioRead = fr, drawsLeft = us\<rparr>"

text \<open>
  \<^verbatim>\<open>updateRules(randomValidRuleset((initialRoughDifficulty + calculateDifficulty(activeRules)) / 2), reason, app)\<close>,
  the statement that five branches of \<^verbatim>\<open>evaluateChange\<close> share.
\<close>

definition changeEntirely ::
  "rule list \<Rightarrow> reason \<Rightarrow> int \<Rightarrow> engineState \<Rightarrow> number option \<Rightarrow> real list
     \<Rightarrow> error + outcome" where
  "changeEntirely rs why now' st fr us =
     (case calculateDifficulty rs (activeRules st) of
        Inl e \<Rightarrow> Inl e
      | Inr d \<Rightarrow>
          (case randomValidRuleset rs (of_int (initialRoughDifficulty + d) / 2) us 0 of
             Inl e \<Rightarrow> Inl e
           | Inr (newRuleset, us') \<Rightarrow> replaceWith why newRuleset now' st fr us'))"

text \<open>The last statement of \<^verbatim>\<open>evaluateChange\<close>, the change by chance.\<close>

definition changeByChance ::
  "rule list \<Rightarrow> int \<Rightarrow> engineState \<Rightarrow> number option \<Rightarrow> real list \<Rightarrow> error + outcome" where
  "changeByChance rs now' st fr us =
     (case us of
        [] \<Rightarrow> Inl DrawsExhausted
      | u # us' \<Rightarrow>
          (if u < completeChangeChance then changeEntirely rs ByChance now' st fr us'
           else noChange st fr us'))"

text \<open>
  \<^verbatim>\<open>evaluateChange\<close>: \<open>now\<close> is the \<^verbatim>\<open>Date.now()\<close> of its first line and \<open>now'\<close> the
  one that \<^verbatim>\<open>updateRules\<close> reads if the call gets there.
\<close>

definition evaluateChange ::
  "rule list \<Rightarrow> int \<Rightarrow> int \<Rightarrow> engineState \<Rightarrow> real list \<Rightarrow> error + outcome" where
  "evaluateChange rs now now' st us =
     (let timeSinceLastChange = now - lastRulesetChange st in
      if timeSinceLastChange < minimumTimeBetweenChanges then noChange st None us
      else if timeSinceLastChange > maximumTimeBetweenChanges
        then changeEntirely rs LongTime now' st None us
      else if length (violationHistoryForThisRuleset st) < minimumSampleSize
        then noChange st None us
      else if length (violationHistoryForThisRuleset st) > maximumMessagesUntilChange
        then changeEntirely rs ManyMessages now' st None us
      else (case us of
              [] \<Rightarrow> Inl DrawsExhausted
            | u # us' \<Rightarrow>
                (if u < changeChance
                 then (let failRatio = getFailRatio st in
                       if numberGreater failRatio maxFailRatio
                       then (case makeEasierRuleset rs (activeRules st) us' of
                               Inl e \<Rightarrow> Inl e
                             | Inr (newRuleset, us'') \<Rightarrow>
                                 (if \<not> success newRuleset
                                  then changeEntirely rs EasierFallback now' st (Some failRatio) us''
                                  else replaceWith MadeEasier (ruleset newRuleset) now' st
                                         (Some failRatio) us''))
                       else if numberLess failRatio minFailRatio
                       then (case makeHarderRuleset rs (activeRules st) us' of
                               Inl e \<Rightarrow> Inl e
                             | Inr (newRuleset, us'') \<Rightarrow>
                                 (if \<not> success newRuleset
                                  then changeEntirely rs HarderFallback now' st (Some failRatio) us''
                                  else replaceWith MadeHarder (ruleset newRuleset) now' st
                                         (Some failRatio) us''))
                       else changeByChance rs now' st (Some failRatio) us')
                 else changeByChance rs now' st None us')))"

definition addToViolationHistory :: "rule list \<Rightarrow> engineState \<Rightarrow> engineState" where
  "addToViolationHistory vs st =
     st\<lparr>violationHistoryForThisRuleset :=
          violationHistoryForThisRuleset st @ [\<lparr>violations = vs\<rparr>]\<rparr>"

definition initializeRules ::
  "rule list \<Rightarrow> int \<Rightarrow> engineState \<Rightarrow> real list \<Rightarrow> error + outcome" where
  "initializeRules rs now' st us =
     (case randomValidRuleset rs (of_int initialRoughDifficulty) us 0 of
        Inl e \<Rightarrow> Inl e
      | Inr (newRuleset, us') \<Rightarrow> replaceWith InitialRuleset newRuleset now' st None us')"

section \<open>The evaluator\<close>

text \<open>
  What \<^verbatim>\<open>rule.check(message, app)\<close> does: it returns a boolean, returns a promise that
  resolves to a boolean, throws, or returns a promise that rejects.
\<close>

datatype checkResult = Returns bool | Resolves bool | Throws | Rejects

text \<open>
  The promise that \<^verbatim>\<open>getViolations\<close> makes for one rule: it resolves to the rule when
  the check is false and to \<^verbatim>\<open>undefined\<close> (\<open>None\<close>) when it is true. A check that
  throws raises inside \<^verbatim>\<open>map\<close>, a promise that rejects makes \<^verbatim>\<open>then\<close> reject.
\<close>

definition violationPromise ::
  "(rule \<Rightarrow> string \<Rightarrow> 'app \<Rightarrow> checkResult) \<Rightarrow> string \<Rightarrow> 'app \<Rightarrow> rule \<Rightarrow> error + rule option" where
  "violationPromise check message app rule =
     (case check rule message app of
        Returns result \<Rightarrow> Inr (if result then None else Some rule)
      | Resolves result \<Rightarrow> Inr (if result then None else Some rule)
      | Throws \<Rightarrow> Inl CheckError
      | Rejects \<Rightarrow> Inl CheckError)"

text \<open>\<^verbatim>\<open>await Promise.all(promises)\<close>: the values in order, or the rejection.\<close>

fun Promise_all :: "(error + 'a) list \<Rightarrow> error + 'a list" where
  "Promise_all [] = Inr []"
| "Promise_all (p # ps) =
     (case p of
        Inl e \<Rightarrow> Inl e
      | Inr v \<Rightarrow> (case Promise_all ps of Inl e \<Rightarrow> Inl e | Inr vs \<Rightarrow> Inr (v # vs)))"

definition getViolations ::
  "(rule \<Rightarrow> string \<Rightarrow> 'app \<Rightarrow> checkResult) \<Rightarrow> rule list \<Rightarrow> string list \<Rightarrow> string \<Rightarrow> 'app
     \<Rightarrow> error + rule list" where
  "getViolations check rs active message app =
     (let violationPromises =
            map (violationPromise check message app) (filter (\<lambda>rule. id' rule \<in> set active) rs)
      in case Promise_all violationPromises of
           Inl e \<Rightarrow> Inl e
         | Inr vs \<Rightarrow> Inr (map the (filter (\<lambda>violation. violation \<noteq> None) vs)))"

section \<open>Auxiliary notions\<close>

text \<open>The weight that \<open>calculateDifficulty\<close> reads for an id of the catalog.\<close>

definition weight :: "rule list \<Rightarrow> string \<Rightarrow> int" where
  "weight rs i = difficulty (the (findRule rs i))"

section \<open>Example states\<close>

text \<open>
  A history of ten messages that all violated a rule (a fail ratio of 1), and an engine
  whose ruleset was installed at time 0 and has seen that history.
\<close>

definition failingHistory :: "violationRecord list" where
  "failingHistory = replicate 10 \<lparr>violations = [hd rules]\<rparr>"

definition busyState :: engineState where
  "busyState =
     \<lparr>activeRules = [''no-spaces''], violationHistoryForThisRuleset = failingHistory,
      lastRulesetChange = 0\<rparr>"

text \<open>
  A history of ten messages of which three violated a rule (a fail ratio of 0.3, inside
  the band), and an engine that has seen it.
\<close>

definition mixedHistory :: "violationRecord list" where
  "mixedHistory =
     replicate 3 \<lparr>violations = [hd rules]\<rparr> @ replicate 7 \<lparr>violations = []\<rparr>"

definition steadyState :: engineState where
  "steadyState =
     \<lparr>activeRules = [''no-spaces''], violationHistoryForThisRuleset = mixedHistory,
      lastRulesetChange = 0\<rparr>"

text \<open>
  Draws for one call of \<open>makeEasierRuleset\<close> or \<open>makeHarderRuleset\<close>: fifteen candidates of
  three rounds each. A draw of 0.05 selects the first rule of the catalog
  (\<^verbatim>\<open>all-lowercase\<close>), 0.4 the fourth (\<^verbatim>\<open>unique-messages\<close>) and 0.95 the ninth
  (\<^verbatim>\<open>no-punctuation\<close>).
\<close>

definition easierDraws :: "real list" where
  "easierDraws =
     [0.4, 0.95, 0.95] @ concat (replicate 13 [0.05, 0.95, 0.95]) @ [0.4, 0.95, 0.95]"

definition harderDraws :: "real list" where
  "harderDraws = [0.4, 0.4, 0.4] @ concat (replicate 13 [0.95, 0.95, 0.95]) @ [0.4, 0.4, 0.4]"

text \<open>
  A catalog built like \<^verbatim>\<open>rules\<close> from one rule and the conflict pair \<open>(a, a)\<close>: no
  ruleset but the empty one is valid. An engine on that catalog, installed at time 0.
\<close>

definition selfConflicting :: "rule list" where
  "selfConflicting =
     foldl resolveConflict
       [\<lparr>id' = ''a'', name = ''A'', description = ''a'', conflictsWith = None,
         difficulty = 1\<rparr>]
       [(''a'', ''a'')]"

definition idleState :: engineState where
  "idleState =
     \<lparr>activeRules = [], violationHistoryForThisRuleset = replicate 2 \<lparr>violations = []\<rparr>,
      lastRulesetChange = 0\<rparr>"

text \<open>A check fails when it throws or rejects; it is false when it yields \<^verbatim>\<open>false\<close>.\<close>

definition checkFails :: "checkResult \<Rightarrow> bool" where
  "checkFails c = (c = Throws \<or> c = Rejects)"

definition checkFalse :: "checkResult \<Rightarrow> bool" where
  "checkFalse c = (c = Returns False \<or> c = Resolves False)"

text \<open>
  Checks for an example: \<^verbatim>\<open>no-spaces\<close> as in the catalog
  (\<^verbatim>\<open>!message.includes(" ")\<close>), \<^verbatim>\<open>unique-messages\<close> with a search request that
  rejects, and every other rule satisfied.
\<close>

definition exampleCheck :: "rule \<Rightarrow> string \<Rightarrow> unit \<Rightarrow> checkResult" where
  "exampleCheck r message app =
     (if id' r = ''no-spaces'' then Returns (CHR '' '' \<notin> set message)
      else if id' r = ''unique-messages'' then Rejects
      else Returns True)"

section \<open>Insertion-ordered sets\<close>

lemma set_Set_add: "set (Set_add s x) = insert x (set s)"
  by (auto simp: Set_add_def)

lemma distinct_Set_add: "distinct s \<Longrightarrow> distinct (Set_add s x)"
  by (simp add: Set_add_def)

lemma set_Set_delete: "set (Set_delete s x) = set s - {x}"
  by (auto simp: Set_delete_def)

lemma distinct_Set_delete: "distinct s \<Longrightarrow> distinct (Set_delete s x)"
  by (simp add: Set_delete_def distinct_removeAll)

lemma foldl_Set_add: "set (foldl Set_add acc xs) = set acc \<union> set xs"
  by (induction xs arbitrary: acc) (auto simp: set_Set_add)

lemma distinct_foldl_Set_add: "distinct acc \<Longrightarrow> distinct (foldl Set_add acc xs)"
  by (induction xs arbitrary: acc) (auto simp: distinct_Set_add)

lemma foldl_Set_add_distinct: "distinct (acc @ xs) \<Longrightarrow> foldl Set_add acc xs = acc @ xs"
  by (induction xs arbitrary: acc) (auto simp: Set_add_def)

lemma set_new_Set: "set (new_Set xs) = set xs"
  by (simp add: new_Set_def foldl_Set_add)

lemma distinct_new_Set: "distinct (new_Set xs)"
  by (simp add: new_Set_def distinct_foldl_Set_add)

lemma new_Set_distinct: "distinct xs \<Longrightarrow> new_Set xs = xs"
  using foldl_Set_add_distinct [of "[]" xs] by (simp add: new_Set_def)

section \<open>Validity\<close>

lemma isValidRuleset_iff:
  "isValidRuleset rs R \<longleftrightarrow>
     (\<forall>r \<in> set rs. id' r \<in> set R \<longrightarrow> (\<forall>c \<in> set (conflictsOf r). c \<notin> set R))"
  by (auto simp: isValidRuleset_def list_ex_iff)

lemma isValidRuleset_cong: "set A = set B \<Longrightarrow> isValidRuleset rs A = isValidRuleset rs B"
  by (simp add: isValidRuleset_iff)

lemma isValidRuleset_subset:
  "isValidRuleset rs B \<Longrightarrow> set A \<subseteq> set B \<Longrightarrow> isValidRuleset rs A"
  by (auto simp: isValidRuleset_iff)

lemma isValidRuleset_Nil: "isValidRuleset rs []"
  by (simp add: isValidRuleset_iff)

section \<open>The catalog, resolved\<close>

lemma rules_ids:
  "map id' rules =
     [''all-lowercase'', ''all-uppercase'', ''only-emojis'', ''unique-messages'',
      ''no-common-words'', ''never-repeats-letters'', ''every-letter'', ''no-spaces'',
      ''no-punctuation'']"
  by (simp add: rules_def ruleLiterals_def conflicts_def resolveConflict_def findRule_def)

lemma rules_difficulty: "map difficulty rules = [1, 1, 2, 5, 4, 5, 4, 3, 2]"
  by (simp add: rules_def ruleLiterals_def conflicts_def resolveConflict_def findRule_def)

lemma rules_conflicts:
  "map conflictsOf rules =
     [[''all-uppercase'', ''only-emojis''],
      [''all-lowercase'', ''only-emojis''],
      [''all-lowercase'', ''all-uppercase'', ''no-common-words'', ''never-repeats-letters'',
       ''every-letter'', ''no-spaces'', ''no-punctuation''],
      [],
      [''only-emojis'', ''no-spaces''],
      [''only-emojis'', ''every-letter''],
      [''only-emojis'', ''never-repeats-letters''],
      [''only-emojis'', ''no-common-words''],
      [''only-emojis'']]"
  by (simp add: rules_def ruleLiterals_def conflicts_def resolveConflict_def findRule_def
      conflictsOf_def)

section \<open>Replacement of the ruleset\<close>

lemma updateRules_fields:
  "set (activeRules (updateRules n t st)) = set n"
  "distinct (activeRules (updateRules n t st))"
  "violationHistoryForThisRuleset (updateRules n t st) = []"
  "lastRulesetChange (updateRules n t st) = t"
  by (simp_all add: updateRules_def foldl_Set_add set_new_Set distinct_foldl_Set_add)

lemma updateRules_distinct: "distinct n \<Longrightarrow> activeRules (updateRules n t st) = n"
  by (simp add: updateRules_def new_Set_distinct flip: new_Set_def)

lemma changeEntirely_engine:
  "changeEntirely rs why now' st fr us = Inr out \<Longrightarrow>
   \<exists>n. replacement out = Some (why, n) \<and> engine out = updateRules n now' st
       \<and> failRatioRead out = fr"
  by (auto simp: changeEntirely_def replaceWith_def split: sum.splits prod.splits)

lemma changeByChance_engine:
  "changeByChance rs now' st fr us = Inr out \<Longrightarrow>
   failRatioRead out = fr \<and>
   ((replacement out = None \<and> engine out = st) \<or>
    (\<exists>n. replacement out = Some (ByChance, n) \<and> engine out = updateRules n now' st))"
  by (auto simp: changeByChance_def noChange_def split: list.splits if_splits
      dest: changeEntirely_engine)

lemma evaluateChange_engine:
  "evaluateChange rs now now' st us = Inr out \<Longrightarrow>
   (replacement out = None \<and> engine out = st) \<or>
   (\<exists>why n. replacement out = Some (why, n) \<and> engine out = updateRules n now' st)"
  unfolding evaluateChange_def Let_def
  by (auto simp: noChange_def replaceWith_def
      split: if_splits list.splits sum.splits prod.splits
      dest!: changeEntirely_engine changeByChance_engine)

lemma initializeRules_engine:
  "initializeRules rs now' st us = Inr out \<Longrightarrow>
   \<exists>n. replacement out = Some (InitialRuleset, n) \<and> engine out = updateRules n now' st"
  by (auto simp: initializeRules_def replaceWith_def split: sum.splits prod.splits)

lemma evaluateChange_stale_example:
  "evaluateChange rules 18000001 18000002 busyState [0.4] =
     Inr \<lparr>engine = \<lparr>activeRules = [''unique-messages''],
                     violationHistoryForThisRuleset = [], lastRulesetChange = 18000002\<rparr>,
          replacement = Some (LongTime, [''unique-messages'']), failRatioRead = None,
          drawsLeft = []\<rparr>"
  by code_simp

text \<open>
  C6. Every replacement goes through \<open>updateRules\<close>, whichever branch of
  \<open>evaluateChange\<close> (or \<open>initializeRules\<close>) made it: the new ruleset becomes the active
  one, the violation history has length 0 and the clock is the time read by
  \<open>updateRules\<close>. A call of \<open>evaluateChange\<close> that replaces nothing leaves the engine as
  it was, and \<open>addToViolationHistory\<close> appends exactly one record and touches neither the
  active ruleset nor the clock.
\<close>

theorem replacement_clears_history_and_resets_clock:
  "(set (activeRules (updateRules n t st)) = set n
      \<and> length (violationHistoryForThisRuleset (updateRules n t st)) = 0
      \<and> lastRulesetChange (updateRules n t st) = t)
   \<and> (evaluateChange rs now now' st us = Inr out \<longrightarrow>
        (case replacement out of
           None \<Rightarrow> engine out = st
         | Some (why, new) \<Rightarrow> engine out = updateRules new now' st))
   \<and> (initializeRules rs now' st us = Inr out \<longrightarrow>
        (case replacement out of
           None \<Rightarrow> False
         | Some (why, new) \<Rightarrow> engine out = updateRules new now' st))
   \<and> (addToViolationHistory vs st =
          st\<lparr>violationHistoryForThisRuleset :=
               violationHistoryForThisRuleset st @ [\<lparr>violations = vs\<rparr>]\<rparr>
      \<and> length (violationHistoryForThisRuleset (addToViolationHistory vs st)) =
          Suc (length (violationHistoryForThisRuleset st))
      \<and> activeRules (addToViolationHistory vs st) = activeRules st
      \<and> lastRulesetChange (addToViolationHistory vs st) = lastRulesetChange st)"
proof (intro conjI impI)
  assume "evaluateChange rs now now' st us = Inr out"
  from evaluateChange_engine [OF this]
  show "case replacement out of None \<Rightarrow> engine out = st
        | Some (why, new) \<Rightarrow> engine out = updateRules new now' st"
    by auto
next
  assume "initializeRules rs now' st us = Inr out"
  from initializeRules_engine [OF this]
  show "case replacement out of None \<Rightarrow> False
        | Some (why, new) \<Rightarrow> engine out = updateRules new now' st"
    by auto
qed (simp_all add: updateRules_fields addToViolationHistory_def)

lemma initializeRules_example:
  "initializeRules rules 7
     \<lparr>activeRules = [], violationHistoryForThisRuleset = [], lastRulesetChange = 5\<rparr>
     [0.5, 0.2, 0] =
   Inr \<lparr>engine = \<lparr>activeRules = [''no-common-words'', ''all-uppercase'', ''unique-messages''],
                   violationHistoryForThisRuleset = [], lastRulesetChange = 7\<rparr>,
        replacement =
          Some (InitialRuleset, [''no-common-words'', ''all-uppercase'', ''unique-messages'']),
        failRatioRead = None, drawsLeft = []\<rparr>"
  by code_simp

theorem replacement_clears_history_and_resets_clock_witness:
  "evaluateChange rules 18000001 18000002 busyState [0.4] =
     Inr \<lparr>engine = updateRules [''unique-messages''] 18000002 busyState,
          replacement = Some (LongTime, [''unique-messages'']), failRatioRead = None,
          drawsLeft = []\<rparr>
   \<and> length (violationHistoryForThisRuleset busyState) = 10
   \<and> length (violationHistoryForThisRuleset
        (updateRules [''unique-messages''] 18000002 busyState)) = 0
   \<and> lastRulesetChange (updateRules [''unique-messages''] 18000002 busyState) = 18000002
   \<and> length (violationHistoryForThisRuleset (addToViolationHistory [] busyState)) = 11
   \<and> \<lparr>activeRules = [''no-common-words'', ''all-uppercase'', ''unique-messages''],
        violationHistoryForThisRuleset = [], lastRulesetChange = 7\<rparr> =
       updateRules [''no-common-words'', ''all-uppercase'', ''unique-messages''] 7
         \<lparr>activeRules = [], violationHistoryForThisRuleset = [], lastRulesetChange = 5\<rparr>"
proof -
  let ?o1 = "\<lparr>engine = \<lparr>activeRules = [''unique-messages''],
                     violationHistoryForThisRuleset = [], lastRulesetChange = 18000002\<rparr>,
          replacement = Some (LongTime, [''unique-messages'']), failRatioRead = None,
          drawsLeft = []\<rparr>"
  let ?s0 = "\<lparr>activeRules = [], violationHistoryForThisRuleset = [], lastRulesetChange = 5\<rparr>"
  let ?n = "[''no-common-words'', ''all-uppercase'', ''unique-messages'']"
  let ?o2 = "\<lparr>engine = \<lparr>activeRules = ?n,
                   violationHistoryForThisRuleset = [], lastRulesetChange = 7\<rparr>,
        replacement = Some (InitialRuleset, ?n), failRatioRead = None, drawsLeft = []\<rparr>"
  note t = replacement_clears_history_and_resets_clock
      [where n = "[''unique-messages'']" and t = 18000002 and st = busyState and rs = rules
        and now = 18000001 and now' = 18000002 and us = "[0.4]" and out = ?o1 and vs = "[]"]
  from t evaluateChange_stale_example
  have "case replacement ?o1 of None \<Rightarrow> engine ?o1 = busyState
        | Some (why, new) \<Rightarrow> engine ?o1 = updateRules new 18000002 busyState"
    by blast
  then have e: "engine ?o1 = updateRules [''unique-messages''] 18000002 busyState" by simp
  from t have u: "length (violationHistoryForThisRuleset
        (updateRules [''unique-messages''] 18000002 busyState)) = 0"
      "lastRulesetChange (updateRules [''unique-messages''] 18000002 busyState) = 18000002"
      "length (violationHistoryForThisRuleset (addToViolationHistory [] busyState)) =
         Suc (length (violationHistoryForThisRuleset busyState))"
    by blast+
  from replacement_clears_history_and_resets_clock
      [where rs = rules and now' = 7 and st = ?s0 and us = "[0.5, 0.2, 0]" and out = ?o2]
    initializeRules_example
  have "case replacement ?o2 of None \<Rightarrow> False
        | Some (why, new) \<Rightarrow> engine ?o2 = updateRules new 7 ?s0"
    by blast
  then have i: "engine ?o2 = updateRules ?n 7 ?s0" by simp
  have l: "length (violationHistoryForThisRuleset busyState) = 10"
    by (simp add: busyState_def failingHistory_def)
  from e have "?o1 = \<lparr>engine = updateRules [''unique-messages''] 18000002 busyState,
          replacement = Some (LongTime, [''unique-messages'']), failRatioRead = None,
          drawsLeft = []\<rparr>" by simp
  with evaluateChange_stale_example
  have "evaluateChange rules 18000001 18000002 busyState [0.4] =
     Inr \<lparr>engine = updateRules [''unique-messages''] 18000002 busyState,
          replacement = Some (LongTime, [''unique-messages'']), failRatioRead = None,
          drawsLeft = []\<rparr>" by (simp only:)
  with u l i show ?thesis by simp
qed

text \<open>
  C7. While less than \<open>minimumTimeBetweenChanges\<close> has passed since the last change of
  the ruleset, \<open>evaluateChange\<close> replaces nothing and leaves the active ruleset, the
  history and the clock as they are, for every history (also one whose fail ratio is 1);
  it reads neither the fail ratio nor a random draw.
\<close>

theorem evaluateChange_too_soon:
  "now - lastRulesetChange st < minimumTimeBetweenChanges \<Longrightarrow>
   evaluateChange rs now now' st us =
     Inr \<lparr>engine = st, replacement = None, failRatioRead = None, drawsLeft = us\<rparr>"
  by (simp add: evaluateChange_def noChange_def)

theorem evaluateChange_too_soon_witness:
  "299999 - lastRulesetChange busyState < minimumTimeBetweenChanges
   \<and> getFailRatio busyState = Num 1
   \<and> evaluateChange rules 299999 300500 busyState [0, 0] =
       Inr \<lparr>engine = busyState, replacement = None, failRatioRead = None,
            drawsLeft = [0, 0]\<rparr>"
proof -
  have h: "299999 - lastRulesetChange busyState < minimumTimeBetweenChanges"
    by (simp add: minimumTimeBetweenChanges_def busyState_def)
  have r: "getFailRatio busyState = Num 1"
    by (simp add: getFailRatio_def failingHistory_def busyState_def)
  show ?thesis
    using h r evaluateChange_too_soon [OF h, of rules 300500 "[0, 0]"] by simp
qed

section \<open>The fail ratio\<close>

lemma getFailRatio_NaN_iff:
  "getFailRatio st = NaN \<longleftrightarrow> violationHistoryForThisRuleset st = []"
  by (simp add: getFailRatio_def Let_def)

lemma evaluateChange_failRatioRead:
  "evaluateChange rs now now' st us = Inr out \<Longrightarrow> failRatioRead out = Some fr \<Longrightarrow>
   fr = getFailRatio st
   \<and> minimumSampleSize \<le> length (violationHistoryForThisRuleset st)
   \<and> length (violationHistoryForThisRuleset st) \<le> maximumMessagesUntilChange"
  unfolding evaluateChange_def Let_def
  by (auto simp: noChange_def replaceWith_def
      split: if_splits list.splits sum.splits prod.splits
      dest!: changeEntirely_engine changeByChance_engine)

lemma evaluateChange_steady_example:
  "evaluateChange rules 300000 300001 steadyState [0.1, 0.9] =
     Inr \<lparr>engine = steadyState, replacement = None, failRatioRead = Some (Num 0.3),
          drawsLeft = []\<rparr>"
  by code_simp

text \<open>
  C10. \<open>getFailRatio\<close> divides the number of records with a violation by the length of
  the history and is \<open>NaN\<close> (0 / 0) exactly on the empty history. \<open>evaluateChange\<close> reads it only behind the check of
  \<open>minimumSampleSize\<close>: on a history shorter than that, the call is one of the branches
  that come before the read, and whenever the fail ratio was read it is the value of
  \<open>getFailRatio\<close> on a history of at least \<open>minimumSampleSize\<close> records, never \<open>NaN\<close>.
\<close>

theorem failRatio_read_only_with_enough_samples:
  "(getFailRatio st = NaN \<longleftrightarrow> violationHistoryForThisRuleset st = [])
   \<and> (violationHistoryForThisRuleset st \<noteq> [] \<longrightarrow>
        getFailRatio st =
          Num (of_nat (length (filter (\<lambda>r. violations r \<noteq> [])
                                 (violationHistoryForThisRuleset st)))
               / of_nat (length (violationHistoryForThisRuleset st))))
   \<and> (length (violationHistoryForThisRuleset st) < minimumSampleSize \<longrightarrow>
        evaluateChange rs now now' st us =
          (if now - lastRulesetChange st < minimumTimeBetweenChanges then noChange st None us
           else if now - lastRulesetChange st > maximumTimeBetweenChanges
             then changeEntirely rs LongTime now' st None us
           else noChange st None us))
   \<and> (evaluateChange rs now now' st us = Inr out \<longrightarrow> failRatioRead out = Some fr \<longrightarrow>
        fr = getFailRatio st \<and> fr \<noteq> NaN
        \<and> minimumSampleSize \<le> length (violationHistoryForThisRuleset st))"
proof (intro conjI impI)
  show "getFailRatio st = NaN \<longleftrightarrow> violationHistoryForThisRuleset st = []"
    by (rule getFailRatio_NaN_iff)
next
  assume "violationHistoryForThisRuleset st \<noteq> []"
  then show "getFailRatio st =
          Num (of_nat (length (filter (\<lambda>r. violations r \<noteq> [])
                                 (violationHistoryForThisRuleset st)))
               / of_nat (length (violationHistoryForThisRuleset st)))"
    by (simp add: getFailRatio_def Let_def)
next
  assume "length (violationHistoryForThisRuleset st) < minimumSampleSize"
  then show "evaluateChange rs now now' st us =
          (if now - lastRulesetChange st < minimumTimeBetweenChanges then noChange st None us
           else if now - lastRulesetChange st > maximumTimeBetweenChanges
             then changeEntirely rs LongTime now' st None us
           else noChange st None us)"
    by (simp add: evaluateChange_def)
next
  assume a: "evaluateChange rs now now' st us = Inr out" "failRatioRead out = Some fr"
  from evaluateChange_failRatioRead [OF a]
  have f: "fr = getFailRatio st"
    and l: "minimumSampleSize \<le> length (violationHistoryForThisRuleset st)"
    by simp_all
  from l have "violationHistoryForThisRuleset st \<noteq> []"
    by (auto simp: minimumSampleSize_def)
  with f show "fr = getFailRatio st" "fr \<noteq> NaN"
    by (simp_all add: getFailRatio_NaN_iff)
  from l show "minimumSampleSize \<le> length (violationHistoryForThisRuleset st)" .
qed

theorem failRatio_read_only_with_enough_samples_witness:
  "evaluateChange rules 300000 300001 steadyState [0.1, 0.9] =
     Inr \<lparr>engine = steadyState, replacement = None, failRatioRead = Some (Num 0.3),
          drawsLeft = []\<rparr>
   \<and> getFailRatio steadyState = Num 0.3
   \<and> getFailRatio steadyState =
       Num (of_nat (length (filter (\<lambda>r. violations r \<noteq> [])
                              (violationHistoryForThisRuleset steadyState)))
            / of_nat (length (violationHistoryForThisRuleset steadyState)))
   \<and> length (violationHistoryForThisRuleset steadyState) = 10
   \<and> getFailRatio (steadyState\<lparr>violationHistoryForThisRuleset := []\<rparr>) = NaN
   \<and> evaluateChange rules 300000 300001 (steadyState\<lparr>violationHistoryForThisRuleset := []\<rparr>)
        [0.1, 0.9] =
       noChange (steadyState\<lparr>violationHistoryForThisRuleset := []\<rparr>) None [0.1, 0.9]"
proof -
  let ?out = "\<lparr>engine = steadyState, replacement = None, failRatioRead = Some (Num 0.3),
          drawsLeft = []\<rparr>"
  let ?empty = "steadyState\<lparr>violationHistoryForThisRuleset := []\<rparr>"
  have r: "failRatioRead ?out = Some (Num 0.3)" by simp
  from failRatio_read_only_with_enough_samples
      [of steadyState rules 300000 300001 "[0.1, 0.9]" ?out "Num 0.3"]
    evaluateChange_steady_example r
  have a: "Num 0.3 = getFailRatio steadyState"
    and l: "minimumSampleSize \<le> length (violationHistoryForThisRuleset steadyState)"
    by blast+
  have e: "violationHistoryForThisRuleset ?empty = []" by simp
  have s: "length (violationHistoryForThisRuleset ?empty) < minimumSampleSize"
    by (simp add: minimumSampleSize_def)
  from failRatio_read_only_with_enough_samples [of ?empty rules 300000 300001 "[0.1, 0.9]"] e s
  have n: "getFailRatio ?empty = NaN"
    and c: "evaluateChange rules 300000 300001 ?empty [0.1, 0.9] =
          (if 300000 - lastRulesetChange ?empty < minimumTimeBetweenChanges
           then noChange ?empty None [0.1, 0.9]
           else if 300000 - lastRulesetChange ?empty > maximumTimeBetweenChanges
             then changeEntirely rules LongTime 300001 ?empty None [0.1, 0.9]
           else noChange ?empty None [0.1, 0.9])"
    by blast+
  have t: "\<not> 300000 - lastRulesetChange ?empty < minimumTimeBetweenChanges"
    "\<not> 300000 - lastRulesetChange ?empty > maximumTimeBetweenChanges"
    by (simp_all add: steadyState_def minimumTimeBetweenChanges_def maximumTimeBetweenChanges_def)
  have len: "length (violationHistoryForThisRuleset steadyState) = 10"
    by (simp add: steadyState_def mixedHistory_def)
  have ne: "violationHistoryForThisRuleset steadyState \<noteq> []"
    using len by auto
  from failRatio_read_only_with_enough_samples [of steadyState] ne
  have q: "getFailRatio steadyState =
      Num (of_nat (length (filter (\<lambda>r. violations r \<noteq> [])
                             (violationHistoryForThisRuleset steadyState)))
           / of_nat (length (violationHistoryForThisRuleset steadyState)))"
    by blast
  from c t have "evaluateChange rules 300000 300001 ?empty [0.1, 0.9] =
      noChange ?empty None [0.1, 0.9]" by (simp only: if_False)
  with evaluateChange_steady_example a n len q show ?thesis by (simp only: simp_thms)
qed

section \<open>Mutation\<close>

lemma randomElement_mem: "randomElement arr u = Some x \<Longrightarrow> x \<in> set arr"
proof -
  assume a: "randomElement arr u = Some x"
  let ?i = "\<lfloor>u * of_nat (length arr)\<rfloor>"
  from a have "0 \<le> ?i" "?i < int (length arr)" "x = arr ! nat ?i"
    by (auto simp: randomElement_def Let_def split: if_splits)
  then show ?thesis by (metis nat_less_iff nth_mem)
qed

lemma toggleUntilValid_result:
  "toggleUntilValid rs old us = Inr (new, us') \<Longrightarrow>
   isValidRuleset rs new \<and> distinct new \<and>
   (\<exists>r \<in> set rs. (id' r \<in> set old \<and> new = Set_delete (new_Set old) (id' r))
                \<or> (id' r \<notin> set old \<and> new = Set_add (new_Set old) (id' r)))"
proof (induction rs old us rule: toggleUntilValid.induct)
  case (1 rs oldRuleset)
  then show ?case by simp
next
  case (2 rs oldRuleset u us)
  show ?case
  proof (cases "randomElement rs u")
    case None
    with "2.prems" show ?thesis by simp
  next
    case (Some r)
    then have r: "r \<in> set rs"
      by (rule randomElement_mem)
    let ?new = "if id' r \<in> set (new_Set oldRuleset)
                  then Set_delete (new_Set oldRuleset) (id' r)
                  else Set_add (new_Set oldRuleset) (id' r)"
    show ?thesis
    proof (cases "isValidRuleset rs ?new")
      case True
      with "2.prems" Some have "new = ?new" "us' = us" by (simp_all add: Let_def)
      with True r show ?thesis
        by (auto simp: set_new_Set distinct_new_Set distinct_Set_add distinct_Set_delete)
    next
      case False
      with "2.prems" Some have "toggleUntilValid rs oldRuleset us = Inr (new, us')"
        by (simp add: Let_def)
      with "2.IH" [OF Some refl False] show ?thesis by simp
    qed
  qed
qed

lemma toggle_parity:
  assumes "toggleUntilValid rs old us = Inr (new, us')"
  shows "even (length new) \<noteq> even (length (new_Set old))"
proof -
  from toggleUntilValid_result [OF assms] obtain r :: rule where
    c: "(id' r \<in> set old \<and> new = Set_delete (new_Set old) (id' r))
        \<or> (id' r \<notin> set old \<and> new = Set_add (new_Set old) (id' r))" by auto
  have d: "distinct (new_Set old)" by (rule distinct_new_Set)
  from c show ?thesis
  proof
    assume a: "id' r \<in> set old \<and> new = Set_delete (new_Set old) (id' r)"
    then have "id' r \<in> set (new_Set old)" by (simp add: set_new_Set)
    with d have "length (new_Set old) = Suc (length (removeAll (id' r) (new_Set old)))"
      by (simp add: distinct_remove1_removeAll [symmetric] length_remove1)
         (metis Suc_pred length_pos_if_in_set)
    with a show ?thesis by (simp add: Set_delete_def)
  next
    assume a: "id' r \<notin> set old \<and> new = Set_add (new_Set old) (id' r)"
    then show ?thesis by (simp add: Set_add_def set_new_Set)
  qed
qed

lemma mutateLoop_parity:
  "mutateLoop rs R k us = Inr (R', us') \<Longrightarrow> distinct R \<Longrightarrow>
   distinct R' \<and> (even (length R') = (even (length R) = even k))"
proof (induction k arbitrary: R us)
  case 0
  then show ?case by simp
next
  case (Suc k)
  from Suc.prems obtain R1 us1 where
    t: "toggleUntilValid rs (new_Set R) us = Inr (R1, us1)"
    and m: "mutateLoop rs R1 k us1 = Inr (R', us')"
    by (auto split: sum.splits prod.splits)
  from toggleUntilValid_result [OF t] have d1: "distinct R1" by simp
  from toggle_parity [OF t] Suc.prems(2)
  have p: "even (length R1) \<noteq> even (length R)" by (simp add: new_Set_distinct)
  from Suc.IH [OF m d1] p show ?case by auto
qed

text \<open>
  C9. Every round of \<open>mutateRuleset\<close> that is accepted flips the membership of exactly
  one rule of the catalog, so the number of members changes parity with every round:
  for an odd number of rounds (3 in \<open>makeEasierRuleset\<close> and \<open>makeHarderRuleset\<close>) the
  set that \<open>mutateRuleset\<close> returns, when it returns, differs from the set it was given.
\<close>

theorem mutateRuleset_odd_changes:
  "(toggleUntilValid rs old us0 = Inr (new, us1) \<longrightarrow>
      (\<exists>r \<in> set rs. set new = (if id' r \<in> set old then set old - {id' r}
                                 else insert (id' r) (set old))))
   \<and> (mutateRuleset rs R k us = Inr (R', us') \<longrightarrow> odd k \<longrightarrow>
        set R' \<noteq> set R \<and> even (card (set R')) \<noteq> even (card (set R)))"
proof (intro conjI impI)
  assume "toggleUntilValid rs old us0 = Inr (new, us1)"
  from toggleUntilValid_result [OF this] obtain r :: rule where
    r: "r \<in> set rs"
    and c: "(id' r \<in> set old \<and> new = Set_delete (new_Set old) (id' r))
            \<or> (id' r \<notin> set old \<and> new = Set_add (new_Set old) (id' r))" by auto
  from c have "set new = (if id' r \<in> set old then set old - {id' r}
                          else insert (id' r) (set old))"
    by (cases "id' r \<in> set old") (simp_all add: set_Set_add set_Set_delete set_new_Set)
  with r show "\<exists>r \<in> set rs. set new = (if id' r \<in> set old then set old - {id' r}
                                 else insert (id' r) (set old))" ..
next
  assume a: "mutateRuleset rs R k us = Inr (R', us')" and k: "odd k"
  from a have "mutateLoop rs (new_Set R) k us = Inr (R', us')"
    by (simp add: mutateRuleset_def)
  from mutateLoop_parity [OF this distinct_new_Set] k
  have d: "distinct R'" and p: "even (length R') \<noteq> even (length (new_Set R))" by auto
  have "card (set R') = length R'" using d by (simp add: distinct_card)
  moreover have "card (set R) = length (new_Set R)"
    using distinct_card [OF distinct_new_Set, of R] by (simp add: set_new_Set)
  ultimately show c: "even (card (set R')) \<noteq> even (card (set R))" using p by simp
  then show "set R' \<noteq> set R" by auto
qed

lemma mutateRuleset_example:
  "mutateRuleset rules [''all-lowercase'', ''no-spaces''] 3 [0.5, 0.2, 0, 0.9, 0.95] =
     Inr ([''no-spaces''], [])"
  by code_simp

lemma toggleUntilValid_example:
  "toggleUntilValid rules [''all-lowercase'', ''no-spaces''] [0.5, 0.2, 0] =
     Inr ([''no-spaces''], [])"
  by code_simp

theorem mutateRuleset_odd_changes_witness:
  "toggleUntilValid rules [''all-lowercase'', ''no-spaces''] [0.5, 0.2, 0] =
     Inr ([''no-spaces''], [])
   \<and> (\<exists>r \<in> set rules.
         set [''no-spaces''] =
           (if id' r \<in> set [''all-lowercase'', ''no-spaces'']
            then set [''all-lowercase'', ''no-spaces''] - {id' r}
            else insert (id' r) (set [''all-lowercase'', ''no-spaces''])))
   \<and> mutateRuleset rules [''all-lowercase'', ''no-spaces''] 3 [0.5, 0.2, 0, 0.9, 0.95] =
     Inr ([''no-spaces''], [])
   \<and> odd (3::nat)
   \<and> set [''no-spaces''] \<noteq> set [''all-lowercase'', ''no-spaces'']"
proof -
  have o: "odd (3::nat)" by simp
  from mutateRuleset_odd_changes
      [where rs = rules and old = "[''all-lowercase'', ''no-spaces'']" and ?us0.0 = "[0.5, 0.2, 0]"
        and new = "[''no-spaces'']" and ?us1.0 = "[]"
        and R = "[''all-lowercase'', ''no-spaces'']" and k = 3
        and us = "[0.5, 0.2, 0, 0.9, 0.95]" and R' = "[''no-spaces'']" and us' = "[]"]
    toggleUntilValid_example mutateRuleset_example o
  have "\<exists>r \<in> set rules.
         set [''no-spaces''] =
           (if id' r \<in> set [''all-lowercase'', ''no-spaces'']
            then set [''all-lowercase'', ''no-spaces''] - {id' r}
            else insert (id' r) (set [''all-lowercase'', ''no-spaces'']))"
    and "set [''no-spaces''] \<noteq> set [''all-lowercase'', ''no-spaces'']"
    by blast+
  with toggleUntilValid_example mutateRuleset_example o show ?thesis by (simp only: simp_thms)
qed

section \<open>Difficulty\<close>

lemma those_map_Some:
  "those (map f xs) = Some ys \<longleftrightarrow> (\<forall>x \<in> set xs. f x \<noteq> None) \<and> ys = map (\<lambda>x. the (f x)) xs"
  by (induction xs arbitrary: ys) (auto split: option.splits)

lemma those_map_None: "those (map f xs) = None \<longleftrightarrow> (\<exists>x \<in> set xs. f x = None)"
  by (induction xs) (auto split: option.splits)

lemma foldl_plus_sum_list: "foldl (\<lambda>acc val. acc + val) (a::int) ws = a + sum_list ws"
  by (induction ws arbitrary: a) auto

lemma calculateDifficulty_eq:
  "calculateDifficulty rs R =
     (if \<forall>i \<in> set R. findRule rs i \<noteq> None then Inr (\<Sum>i\<leftarrow>R. weight rs i) else Inl TypeError)"
proof (cases "those (map (\<lambda>i. map_option difficulty (findRule rs i)) R)")
  case None
  then have "\<exists>i \<in> set R. findRule rs i = None" by (simp add: those_map_None)
  with None show ?thesis by (auto simp: calculateDifficulty_def)
next
  case (Some ws)
  then have a: "\<forall>i \<in> set R. findRule rs i \<noteq> None"
    and w: "ws = map (\<lambda>i. the (map_option difficulty (findRule rs i))) R"
    by (simp_all add: those_map_Some)
  from a have "map (\<lambda>i. the (map_option difficulty (findRule rs i))) R = map (weight rs) R"
    by (auto simp: weight_def option.map_sel)
  with Some a w show ?thesis
    by (simp add: calculateDifficulty_def foldl_plus_sum_list)
qed

lemma findRule_Some_iff: "findRule rs i \<noteq> None \<longleftrightarrow> i \<in> id' ` set rs"
  by (auto simp: findRule_def find_None_iff)

lemma findRule_mem: "findRule rs i = Some r \<Longrightarrow> r \<in> set rs \<and> id' r = i"
  by (auto simp: findRule_def find_Some_iff)

lemma sum_list_distinct: "distinct xs \<Longrightarrow> sum_list (map f xs) = sum f (set xs)"
  by (simp add: sum_list_distinct_conv_sum_set)

lemma rules_weight_pos: "r \<in> set rules \<Longrightarrow> 1 \<le> difficulty r"
proof -
  assume "r \<in> set rules"
  then have "difficulty r \<in> set (map difficulty rules)" by simp
  then show ?thesis unfolding rules_difficulty by auto
qed

lemma weight_rules_pos: "findRule rules i \<noteq> None \<Longrightarrow> 1 \<le> weight rules i"
proof -
  assume "findRule rules i \<noteq> None"
  then obtain r where r: "findRule rules i = Some r" by auto
  from findRule_mem [OF r] have "r \<in> set rules" by simp
  from rules_weight_pos [OF this] r show ?thesis by (simp add: weight_def)
qed

text \<open>
  C8. \<open>calculateDifficulty\<close> is the sum of the weights of the members (for a set all of
  whose ids are in the catalog; it throws otherwise): 0 on the empty set, additive over
  the union of two disjoint sets, and, since every weight of the catalog is at least 1,
  monotone under inclusion; adding a rule of the catalog never lowers it.
\<close>

theorem calculateDifficulty_sum:
  "calculateDifficulty rs [] = Inr 0
   \<and> calculateDifficulty rs R =
       (if \<forall>i \<in> set R. findRule rs i \<noteq> None
        then Inr (\<Sum>i\<leftarrow>R. difficulty (the (findRule rs i))) else Inl TypeError)
   \<and> (distinct A \<longrightarrow> distinct B \<longrightarrow> set A \<inter> set B = {} \<longrightarrow> distinct U \<longrightarrow>
        set U = set A \<union> set B \<longrightarrow>
        calculateDifficulty rs A = Inr a \<longrightarrow> calculateDifficulty rs B = Inr b \<longrightarrow>
        calculateDifficulty rs U = Inr (a + b) \<and> calculateDifficulty rs (new_Set (A @ B)) = Inr (a + b))
   \<and> (\<forall>r \<in> set rules. 1 \<le> difficulty r)
   \<and> (distinct A \<longrightarrow> distinct B \<longrightarrow> set A \<subseteq> set B \<longrightarrow> calculateDifficulty rules B = Inr b \<longrightarrow>
        (\<exists>a. calculateDifficulty rules A = Inr a \<and> a \<le> b))
   \<and> (distinct A \<longrightarrow> r \<in> set rules \<longrightarrow> calculateDifficulty rules A = Inr a \<longrightarrow>
        (\<exists>a'. calculateDifficulty rules (Set_add A (id' r)) = Inr a' \<and> a \<le> a'))"
proof (intro conjI impI ballI)
  show "calculateDifficulty rs [] = Inr 0" by (simp add: calculateDifficulty_def)
next
  show "calculateDifficulty rs R =
       (if \<forall>i \<in> set R. findRule rs i \<noteq> None
        then Inr (\<Sum>i\<leftarrow>R. difficulty (the (findRule rs i))) else Inl TypeError)"
    unfolding calculateDifficulty_eq [of rs R] weight_def [abs_def] by simp
next
  assume d: "distinct A" "distinct B" "set A \<inter> set B = {}" "distinct U" "set U = set A \<union> set B"
    and c: "calculateDifficulty rs A = Inr a" "calculateDifficulty rs B = Inr b"
  from c have f: "\<forall>i \<in> set A. findRule rs i \<noteq> None" "\<forall>i \<in> set B. findRule rs i \<noteq> None"
    and s: "a = sum (weight rs) (set A)" "b = sum (weight rs) (set B)"
    using d by (auto simp: calculateDifficulty_eq sum_list_distinct split: if_splits)
  have "sum (weight rs) (set U) = a + b"
    using d s by (simp add: sum.union_disjoint)
  with d f show u: "calculateDifficulty rs U = Inr (a + b)"
    by (auto simp: calculateDifficulty_eq sum_list_distinct)
  have "new_Set (A @ B) = A @ B"
    using d by (intro new_Set_distinct) auto
  with c f s d show "calculateDifficulty rs (new_Set (A @ B)) = Inr (a + b)"
    by (auto simp: calculateDifficulty_eq sum_list_distinct)
next
  fix r assume "r \<in> set rules"
  then show "1 \<le> difficulty r" by (rule rules_weight_pos)
next
  assume d: "distinct A" "distinct B" "set A \<subseteq> set B"
    and c: "calculateDifficulty rules B = Inr b"
  from c d have f: "\<forall>i \<in> set B. findRule rules i \<noteq> None"
    and s: "b = sum (weight rules) (set B)"
    by (auto simp: calculateDifficulty_eq sum_list_distinct split: if_splits)
  from f d have fa: "\<forall>i \<in> set A. findRule rules i \<noteq> None" by auto
  have "sum (weight rules) (set A) \<le> sum (weight rules) (set B)"
  proof (rule sum_mono2)
    show "finite (set B)" by simp
    show "set A \<subseteq> set B" by fact
    fix i assume "i \<in> set B - set A"
    with f have "1 \<le> weight rules i" by (intro weight_rules_pos) auto
    then show "0 \<le> weight rules i" by simp
  qed
  with fa s d show "\<exists>a. calculateDifficulty rules A = Inr a \<and> a \<le> b"
    by (auto simp: calculateDifficulty_eq sum_list_distinct)
next
  assume d: "distinct A" and r: "r \<in> set rules" and c: "calculateDifficulty rules A = Inr a"
  from c have f: "\<forall>i \<in> set A. findRule rules i \<noteq> None" and s: "a = (\<Sum>i\<leftarrow>A. weight rules i)"
    by (auto simp: calculateDifficulty_eq split: if_splits)
  from r have fr: "findRule rules (id' r) \<noteq> None"
    using findRule_Some_iff [of rules "id' r"] by blast
  show "\<exists>a'. calculateDifficulty rules (Set_add A (id' r)) = Inr a' \<and> a \<le> a'"
  proof (cases "id' r \<in> set A")
    case True
    with c show ?thesis by (simp add: Set_add_def)
  next
    case False
    from weight_rules_pos [OF fr] f fr s False show ?thesis
      by (auto simp: Set_add_def calculateDifficulty_eq)
  qed
qed


lemma hd_rules_mem: "hd rules \<in> set rules"
proof -
  have "rules \<noteq> []" using rules_ids by auto
  then show ?thesis by simp
qed

lemma calculateDifficulty_examples:
  "calculateDifficulty rules [''no-spaces''] = Inr 3"
  "calculateDifficulty rules [''all-lowercase''] = Inr 1"
  "calculateDifficulty rules [''all-lowercase'', ''no-spaces''] = Inr 4"
  by code_simp+

theorem calculateDifficulty_sum_witness:
  "calculateDifficulty rules [''no-spaces''] = Inr 3
   \<and> calculateDifficulty rules [''all-lowercase''] = Inr 1
   \<and> calculateDifficulty rules [''all-lowercase'', ''no-spaces''] = Inr (3 + 1)
   \<and> calculateDifficulty rules (new_Set ([''no-spaces''] @ [''all-lowercase''])) = Inr (3 + 1)
   \<and> (\<exists>a. calculateDifficulty rules [''no-spaces''] = Inr a \<and> a \<le> 4)
   \<and> (\<exists>a'. calculateDifficulty rules (Set_add [''no-spaces''] (id' (hd rules))) = Inr a'
           \<and> 3 \<le> a')"
proof -
  note c = calculateDifficulty_examples
  have "calculateDifficulty rules [''all-lowercase'', ''no-spaces''] = Inr (3 + 1)
      \<and> calculateDifficulty rules (new_Set ([''no-spaces''] @ [''all-lowercase''])) = Inr (3 + 1)
      \<and> (\<exists>a'. calculateDifficulty rules (Set_add [''no-spaces''] (id' (hd rules))) = Inr a'
           \<and> 3 \<le> a')"
    using calculateDifficulty_sum
      [of rules "[]" "[''no-spaces'']" "[''all-lowercase'']" "[''all-lowercase'', ''no-spaces'']"
        3 1 "hd rules"] c hd_rules_mem
    by simp
  moreover have "\<exists>a. calculateDifficulty rules [''no-spaces''] = Inr a \<and> a \<le> 4"
    using calculateDifficulty_sum
      [of rules "[]" "[''no-spaces'']" "[''all-lowercase'', ''no-spaces'']" "[]" 0 4 "hd rules"] c
    by simp
  ultimately show ?thesis using c by simp
qed

section \<open>Generated rulesets are valid\<close>

lemma mutateLoop_valid:
  "mutateLoop rs R k us = Inr (R', us') \<Longrightarrow> isValidRuleset rs R \<or> 0 < k \<Longrightarrow>
   isValidRuleset rs R'"
proof (induction k arbitrary: R us)
  case 0
  then show ?case by simp
next
  case (Suc k)
  from Suc.prems(1) obtain R1 us1 where
    t: "toggleUntilValid rs (new_Set R) us = Inr (R1, us1)"
    and m: "mutateLoop rs R1 k us1 = Inr (R', us')"
    by (auto split: sum.splits prod.splits)
  from toggleUntilValid_result [OF t] have "isValidRuleset rs R1" by simp
  with Suc.IH [OF m] show ?case by simp
qed

lemma mutateRuleset_valid:
  "mutateRuleset rs R k us = Inr (R', us') \<Longrightarrow> isValidRuleset rs R \<or> 0 < k \<Longrightarrow>
   isValidRuleset rs R'"
  unfolding mutateRuleset_def
  using mutateLoop_valid [of rs "new_Set R" k us R' us'] isValidRuleset_cong [OF set_new_Set, of rs R]
  by simp

lemma randomElement_getAdditional:
  "randomElement (getAdditionalValidRules rs R) u = Some x \<Longrightarrow>
   isValidRuleset rs (Set_add R x) \<and> x \<notin> set R"
proof -
  assume "randomElement (getAdditionalValidRules rs R) u = Some x"
  from randomElement_mem [OF this]
  have "x \<in> set (getAdditionalValidRules rs R)" .
  then obtain r :: rule where "x = id' r" "id' r \<notin> set R" "isValidRuleset rs (new_Set (R @ [id' r]))"
    by (auto simp: getAdditionalValidRules_def set_new_Set)
  moreover have "set (new_Set (R @ [x])) = set (Set_add R x)"
    by (simp add: set_new_Set set_Set_add)
  ultimately show ?thesis using isValidRuleset_cong by blast
qed

lemma growRuleset_valid:
  "growRuleset rs d R us = Inr (R', us') \<Longrightarrow> isValidRuleset rs R \<Longrightarrow> isValidRuleset rs R'"
proof (induction rs d R us rule: growRuleset.induct)
  case (1 rs d R us)
  from "1.prems"(1) obtain w where w: "calculateDifficulty rs R = Inr w"
    by (subst (asm) growRuleset.simps) (auto split: sum.splits)
  show ?case
  proof (cases "of_int w < d \<and> length (getAdditionalValidRules rs R) \<noteq> 0")
    case False
    with "1.prems" w have "R' = R"
      by (subst (asm) growRuleset.simps) (auto simp: Let_def split: if_splits)
    with "1.prems" show ?thesis by simp
  next
    case True
    with "1.prems"(1) w obtain u ut x where
      us: "us = u # ut" and x: "randomElement (getAdditionalValidRules rs R) u = Some x"
      and g: "growRuleset rs d (Set_add R x) ut = Inr (R', us')"
      by (subst (asm) growRuleset.simps)
         (auto simp: Let_def split: if_splits list.splits option.splits)
    from randomElement_getAdditional [OF x] have v: "isValidRuleset rs (Set_add R x)" by simp
    from True have t1: "of_int w < d" and t2: "length (getAdditionalValidRules rs R) \<noteq> 0"
      by simp_all
    from "1.IH" [OF w t1 refl t2 us x g v] show ?thesis .
  qed
qed

lemma randomValidRuleset_valid:
  "randomValidRuleset rs d us n = Inr (R, us') \<Longrightarrow> isValidRuleset rs R"
proof (induction rs d us n rule: randomValidRuleset.induct)
  case (1 rs d us n)
  from "1.prems" obtain R1 us1 where g: "growRuleset rs d [] us = Inr (R1, us1)"
    by (subst (asm) randomValidRuleset.simps) (auto split: sum.splits)
  from growRuleset_valid [OF g isValidRuleset_Nil] have v1: "isValidRuleset rs R1" .
  show ?case
  proof (cases "length R1 = 0 \<and> n < 10")
    case True
    with "1.prems" g have "randomValidRuleset rs d us1 (n + 1) = Inr (R, us')"
      by (subst (asm) randomValidRuleset.simps) simp
    from "1.IH" [OF g refl True this] show ?thesis .
  next
    case False
    with "1.prems" g have "R = R1"
      by (subst (asm) randomValidRuleset.simps) auto
    with v1 show ?thesis by simp
  qed
qed

section \<open>Candidates, the filter and the sort\<close>

lemma mutatedRulesets_valid:
  "mutatedRulesets rs R n us = Inr (ms, us') \<Longrightarrow>
   length ms = n \<and> (\<forall>m \<in> set ms. isValidRuleset rs m)"
proof (induction n arbitrary: us ms)
  case 0
  then show ?case by simp
next
  case (Suc n)
  from Suc.prems obtain m us1 ms1 where
    m: "mutateRuleset rs R mutationAmount us = Inr (m, us1)"
    and r: "mutatedRulesets rs R n us1 = Inr (ms1, us')"
    and e: "ms = m # ms1"
    by (auto split: sum.splits prod.splits)
  from mutateRuleset_valid [OF m] have "isValidRuleset rs m"
    by (simp add: mutationAmount_def)
  with Suc.IH [OF r] e show ?case by simp
qed

lemma filterByDifficulty_result:
  "filterByDifficulty keep rs cur cs = Inr kept \<Longrightarrow>
   set kept \<subseteq> set cs \<and>
   (\<forall>c \<in> set kept. \<exists>dc dcur. calculateDifficulty rs c = Inr dc
        \<and> calculateDifficulty rs cur = Inr dcur \<and> keep dc dcur)"
proof (induction cs arbitrary: kept)
  case Nil
  then show ?case by simp
next
  case (Cons c cs)
  from Cons.prems obtain dc dcur kept1 where
    d: "calculateDifficulty rs c = Inr dc" "calculateDifficulty rs cur = Inr dcur"
    and f: "filterByDifficulty keep rs cur cs = Inr kept1"
    and k: "kept = (if keep dc dcur then c # kept1 else kept1)"
    by (auto split: sum.splits)
  from Cons.IH [OF f] d k show ?case by auto
qed

lemma set_take_drop: "set (take n xs) \<union> set (drop n xs) = set xs"
proof -
  have "set (take n xs) \<union> set (drop n xs) = set (take n xs @ drop n xs)"
    by (simp only: set_append)
  then show ?thesis by (simp only: append_take_drop_id)
qed

lemma set_binaryInsert: "set (binaryInsert f work pivot) = insert pivot (set work)"
proof -
  have "set (take n work @ pivot # drop n work) = insert pivot (set work)" for n
    using set_take_drop [of n work] by auto
  then show ?thesis by (simp only: binaryInsert_def Let_def)
qed

lemma set_foldl_binaryInsert: "set (foldl (binaryInsert f) run rest) = set run \<union> set rest"
  by (induction rest arbitrary: run) (auto simp: set_binaryInsert)

lemma countAndMakeRun_shape:
  assumes "countAndMakeRun f xs = (run, rest)"
  shows "\<exists>n. rest = drop n xs \<and> (run = take n xs \<or> run = rev (take n xs))"
proof (cases xs)
  case Nil
  with assms have "run = take 0 xs" "rest = drop 0 xs"
    by (simp_all add: countAndMakeRun_def)
  then show ?thesis by blast
next
  case a: (Cons a ys)
  show ?thesis
  proof (cases ys)
    case Nil
    with a assms have "run = take (length xs) xs" "rest = drop (length xs) xs"
      by (simp_all add: countAndMakeRun_def)
    then show ?thesis by blast
  next
    case b: (Cons b zs)
    define d where "d = (f b a < 0)"
    define k where "k = 2 + countRun f d b zs"
    have "countAndMakeRun f (a # b # zs) =
            (if d then rev (take k (a # b # zs)) else take k (a # b # zs), drop k (a # b # zs))"
      unfolding countAndMakeRun_def d_def k_def by (simp only: list.case Let_def)
    with assms a b have "(run, rest) = (if d then rev (take k xs) else take k xs, drop k xs)"
      by (simp only:)
    then have "rest = drop k xs" "run = take k xs \<or> run = rev (take k xs)"
      by (simp_all split: if_splits)
    then show ?thesis by blast
  qed
qed

lemma set_countAndMakeRun:
  assumes "countAndMakeRun f xs = (run, rest)"
  shows "set run \<union> set rest = set xs"
proof -
  from countAndMakeRun_shape [OF assms] obtain n where
    n: "rest = drop n xs" "run = take n xs \<or> run = rev (take n xs)" by blast
  from n(2) have "set run = set (take n xs)" by (rule disjE) simp_all
  with n(1) show ?thesis by (simp only: set_take_drop)
qed

lemma set_arraySort: "set (arraySort f xs) = set xs"
proof (cases "length xs < 2")
  case True
  then show ?thesis by (simp add: arraySort_def)
next
  case False
  obtain run rest where c: "countAndMakeRun f xs = (run, rest)" by (cases "countAndMakeRun f xs")
  with False have "arraySort f xs = foldl (binaryInsert f) run rest"
    by (simp add: arraySort_def)
  with set_countAndMakeRun [OF c] show ?thesis by (simp add: set_foldl_binaryInsert)
qed

lemma pop_Some: "pop xs = Some x \<Longrightarrow> x \<in> set xs"
  by (auto simp: pop_def split: if_splits)

lemma pop_None: "pop xs = None \<longleftrightarrow> xs = []"
  by (simp add: pop_def)

lemma selectClosest_result:
  assumes m: "mutatedRulesets rs R mutationIterations us = Inr (mutated, us1)"
    and f: "filterByDifficulty keep rs R mutated = Inr kept"
    and p: "pop (arraySort cmp kept) = Some c"
  shows "isValidRuleset rs c \<and> c \<in> set mutated \<and>
     (\<exists>d' d. calculateDifficulty rs c = Inr d' \<and> calculateDifficulty rs R = Inr d \<and> keep d' d)"
proof -
  from pop_Some [OF p] have "c \<in> set kept" by (simp add: set_arraySort)
  with filterByDifficulty_result [OF f] mutatedRulesets_valid [OF m] show ?thesis by auto
qed

lemma makeEasierRuleset_result:
  assumes "makeEasierRuleset rs R us = Inr (res, us')"
  shows "(\<not> success res \<and> ruleset res = R) \<or>
     (success res \<and> isValidRuleset rs (ruleset res) \<and>
      (\<exists>d' d. calculateDifficulty rs (ruleset res) = Inr d' \<and> calculateDifficulty rs R = Inr d
          \<and> d' < d))"
proof -
  from assms obtain mutated us1 kept where
    m: "mutatedRulesets rs R mutationIterations us = Inr (mutated, us1)"
    and f: "filterByDifficulty (\<lambda>d dcur. d < dcur) rs R mutated = Inr kept"
    by (auto simp: makeEasierRuleset_def split: sum.splits prod.splits)
  let ?p = "pop (arraySort (\<lambda>a b. difficultyOf rs R - difficultyOf rs a) kept)"
  show ?thesis
  proof (cases ?p)
    case None
    with assms m f have "res = \<lparr>success = False, ruleset = R\<rparr>"
      by (simp add: makeEasierRuleset_def)
    then show ?thesis by simp
  next
    case (Some c)
    with assms m f have "res = \<lparr>success = True, ruleset = c\<rparr>"
      by (simp add: makeEasierRuleset_def)
    with selectClosest_result [OF m f Some] show ?thesis by simp
  qed
qed

lemma makeHarderRuleset_result:
  assumes "makeHarderRuleset rs R us = Inr (res, us')"
  shows "(\<not> success res \<and> ruleset res = R) \<or>
     (success res \<and> isValidRuleset rs (ruleset res) \<and>
      (\<exists>d' d. calculateDifficulty rs (ruleset res) = Inr d' \<and> calculateDifficulty rs R = Inr d
          \<and> d' > d))"
proof -
  from assms obtain mutated us1 kept where
    m: "mutatedRulesets rs R mutationIterations us = Inr (mutated, us1)"
    and f: "filterByDifficulty (\<lambda>d dcur. d > dcur) rs R mutated = Inr kept"
    by (auto simp: makeHarderRuleset_def split: sum.splits prod.splits)
  let ?p = "pop (arraySort (\<lambda>a b. difficultyOf rs a - difficultyOf rs R) kept)"
  show ?thesis
  proof (cases ?p)
    case None
    with assms m f have "res = \<lparr>success = False, ruleset = R\<rparr>"
      by (simp add: makeHarderRuleset_def)
    then show ?thesis by simp
  next
    case (Some c)
    with assms m f have "res = \<lparr>success = True, ruleset = c\<rparr>"
      by (simp add: makeHarderRuleset_def)
    with selectClosest_result [OF m f Some] show ?thesis by simp
  qed
qed

section \<open>The active ruleset stays valid\<close>

lemma changeEntirely_valid:
  "changeEntirely rs why now' st fr us = Inr out \<Longrightarrow>
   \<exists>n. replacement out = Some (why, n) \<and> isValidRuleset rs n"
  by (auto simp: changeEntirely_def replaceWith_def split: sum.splits prod.splits
      dest: randomValidRuleset_valid)

lemma changeByChance_valid:
  "changeByChance rs now' st fr us = Inr out \<Longrightarrow> replacement out = Some (why, n) \<Longrightarrow>
   isValidRuleset rs n"
  by (auto simp: changeByChance_def noChange_def split: list.splits if_splits
      dest: changeEntirely_valid)

lemma evaluateChange_replacement_valid:
  assumes "evaluateChange rs now now' st us = Inr out" and "replacement out = Some (why, n)"
  shows "isValidRuleset rs n"
proof -
  have e: "isValidRuleset rs (ruleset res)"
    if "makeEasierRuleset rs R vs = Inr (res, vs')" "success res" for R vs res vs'
    using makeEasierRuleset_result [OF that(1)] that(2) by auto
  have h: "isValidRuleset rs (ruleset res)"
    if "makeHarderRuleset rs R vs = Inr (res, vs')" "success res" for R vs res vs'
    using makeHarderRuleset_result [OF that(1)] that(2) by auto
  from assms show ?thesis
    unfolding evaluateChange_def Let_def
    by (auto simp: noChange_def replaceWith_def
        split: if_splits list.splits sum.splits prod.splits
        dest: changeEntirely_valid changeByChance_valid e h)
qed

lemma evaluateChange_valid:
  assumes "evaluateChange rs now now' st us = Inr out"
    and "isValidRuleset rs (activeRules st)"
  shows "isValidRuleset rs (activeRules (engine out))"
proof -
  from evaluateChange_engine [OF assms(1)] show ?thesis
  proof
    assume "replacement out = None \<and> engine out = st"
    with assms(2) show ?thesis by simp
  next
    assume "\<exists>why n. replacement out = Some (why, n) \<and> engine out = updateRules n now' st"
    then obtain why n where r: "replacement out = Some (why, n)"
      and u: "engine out = updateRules n now' st" by blast
    from evaluateChange_replacement_valid [OF assms(1) r] have "isValidRuleset rs n" .
    moreover have "set (activeRules (engine out)) = set n"
      using u by (simp add: updateRules_fields)
    ultimately show ?thesis using isValidRuleset_cong by blast
  qed
qed

lemma initializeRules_valid:
  assumes "initializeRules rs now' st us = Inr out"
  shows "isValidRuleset rs (activeRules (engine out))"
proof -
  from assms obtain n us1 where
    r: "randomValidRuleset rs (of_int initialRoughDifficulty) us 0 = Inr (n, us1)"
    and o: "engine out = updateRules n now' st"
    by (auto simp: initializeRules_def replaceWith_def split: sum.splits prod.splits)
  from randomValidRuleset_valid [OF r] have "isValidRuleset rs n" .
  moreover have "set (activeRules (engine out)) = set n"
    using o by (simp add: updateRules_fields)
  ultimately show ?thesis using isValidRuleset_cong by blast
qed

text \<open>
  C2. \<open>isValidRuleset\<close> holds exactly when no conflict id declared by a member is itself a
  member. Every ruleset that \<open>randomValidRuleset\<close> returns is valid, and so is every
  ruleset that \<open>mutateRuleset\<close> returns for a valid ruleset, whatever the number of
  rounds. Hence the active ruleset is valid after \<open>initializeRules\<close> and stays valid
  through every call of \<open>evaluateChange\<close>.
\<close>

theorem generated_rulesets_valid:
  "(isValidRuleset rs R \<longleftrightarrow>
      (\<forall>r \<in> set rs. id' r \<in> set R \<longrightarrow> (\<forall>c \<in> set (conflictsOf r). c \<notin> set R)))
   \<and> (randomValidRuleset rs d us n = Inr (R1, us1) \<longrightarrow> isValidRuleset rs R1)
   \<and> (isValidRuleset rs R \<longrightarrow> mutateRuleset rs R k us = Inr (R2, us2) \<longrightarrow>
        isValidRuleset rs R2)
   \<and> (initializeRules rs now' st us = Inr out0 \<longrightarrow>
        isValidRuleset rs (activeRules (engine out0)))
   \<and> (isValidRuleset rs (activeRules st) \<longrightarrow> evaluateChange rs now now' st us = Inr out \<longrightarrow>
        isValidRuleset rs (activeRules (engine out)))"
  using isValidRuleset_iff [of rs R] randomValidRuleset_valid [of rs d us n R1 us1]
    mutateRuleset_valid [of rs R k us R2 us2] initializeRules_valid [of rs now' st us out0]
    evaluateChange_valid [of rs now now' st us out]
  by blast


lemma validity_examples:
  "isValidRuleset rules [''all-lowercase'', ''no-spaces'']"
  "\<not> isValidRuleset rules [''all-lowercase'', ''all-uppercase'']"
  "isValidRuleset rules (activeRules busyState)"
  "randomValidRuleset rules 6 [0.5, 0.2, 0] 0 =
     Inr ([''no-common-words'', ''all-uppercase'', ''unique-messages''], [])"
  by code_simp+

theorem generated_rulesets_valid_witness:
  "isValidRuleset rules [''all-lowercase'', ''no-spaces'']
   \<and> \<not> isValidRuleset rules [''all-lowercase'', ''all-uppercase'']
   \<and> mutateRuleset rules [''all-lowercase'', ''no-spaces''] 3 [0.5, 0.2, 0, 0.9, 0.95] =
       Inr ([''no-spaces''], [])
   \<and> isValidRuleset rules [''no-spaces'']
   \<and> randomValidRuleset rules 6 [0.5, 0.2, 0] 0 =
       Inr ([''no-common-words'', ''all-uppercase'', ''unique-messages''], [])
   \<and> isValidRuleset rules [''no-common-words'', ''all-uppercase'', ''unique-messages'']
   \<and> isValidRuleset rules (activeRules busyState)
   \<and> isValidRuleset rules [''unique-messages'']"
proof -
  have "isValidRuleset rules [''no-spaces'']"
    using generated_rulesets_valid
      [where rs = rules and R = "[''all-lowercase'', ''no-spaces'']" and k = 3
        and us = "[0.5, 0.2, 0, 0.9, 0.95]" and ?R2.0 = "[''no-spaces'']" and ?us2.0 = "[]"]
      validity_examples(1) mutateRuleset_example
    by blast
  moreover have "isValidRuleset rules [''no-common-words'', ''all-uppercase'', ''unique-messages'']"
    using generated_rulesets_valid
      [where rs = rules and d = 6 and us = "[0.5, 0.2, 0]" and n = 0
        and ?R1.0 = "[''no-common-words'', ''all-uppercase'', ''unique-messages'']"
        and ?us1.0 = "[]"] validity_examples(4)
    by blast
  moreover have "isValidRuleset rules (activeRules \<lparr>activeRules = [''unique-messages''],
                     violationHistoryForThisRuleset = [], lastRulesetChange = 18000002\<rparr>)"
    using generated_rulesets_valid
      [where rs = rules and st = busyState and now = 18000001 and now' = 18000002
        and us = "[0.4]"
        and out = "\<lparr>engine = \<lparr>activeRules = [''unique-messages''],
                     violationHistoryForThisRuleset = [], lastRulesetChange = 18000002\<rparr>,
          replacement = Some (LongTime, [''unique-messages'']), failRatioRead = None,
          drawsLeft = []\<rparr>"] validity_examples(3) evaluateChange_stale_example
    by (simp only: outcome.simps) blast
  then have "isValidRuleset rules [''unique-messages'']" by (simp only: engineState.simps)
  moreover have "isValidRuleset rules
      (activeRules \<lparr>activeRules = [''no-common-words'', ''all-uppercase'', ''unique-messages''],
                   violationHistoryForThisRuleset = [], lastRulesetChange = 7\<rparr>)"
    using generated_rulesets_valid
      [where rs = rules and now' = 7 and us = "[0.5, 0.2, 0]"
        and st = "\<lparr>activeRules = [], violationHistoryForThisRuleset = [],
                  lastRulesetChange = 5\<rparr>"
        and ?out0.0 = "\<lparr>engine =
            \<lparr>activeRules = [''no-common-words'', ''all-uppercase'', ''unique-messages''],
              violationHistoryForThisRuleset = [], lastRulesetChange = 7\<rparr>,
          replacement =
            Some (InitialRuleset, [''no-common-words'', ''all-uppercase'', ''unique-messages'']),
          failRatioRead = None, drawsLeft = []\<rparr>"] initializeRules_example
    by (simp only: outcome.simps) blast
  ultimately show ?thesis
    using validity_examples(1,2,3,4) mutateRuleset_example by blast
qed

section \<open>Easier and harder rulesets\<close>

lemma makeEasierRuleset_example:
  "makeEasierRuleset rules [''unique-messages'', ''no-punctuation'', ''all-lowercase'']
     easierDraws =
   Inr (\<lparr>success = True, ruleset = [''all-lowercase'', ''no-punctuation'']\<rparr>, [])"
  by code_simp

lemma makeHarderRuleset_example:
  "makeHarderRuleset rules [''all-lowercase''] harderDraws =
   Inr (\<lparr>success = True, ruleset = [''all-lowercase'', ''unique-messages'']\<rparr>, [])"
  by code_simp

lemma makeHarderRuleset_fails_example:
  "makeHarderRuleset rules [''unique-messages'', ''no-punctuation'', ''all-lowercase'']
     easierDraws =
   Inr (\<lparr>success = False,
         ruleset = [''unique-messages'', ''no-punctuation'', ''all-lowercase'']\<rparr>, [])"
  by code_simp

lemma mutatedRulesets_easier_example:
  "mutatedRulesets rules [''unique-messages'', ''no-punctuation'', ''all-lowercase'']
     mutationIterations easierDraws =
   Inr ([''all-lowercase'', ''no-punctuation'']
          # replicate 13 [''unique-messages'', ''no-punctuation'']
          @ [[''all-lowercase'', ''no-punctuation'']], [])"
  by code_simp

lemma mutatedRulesets_harder_example:
  "mutatedRulesets rules [''all-lowercase''] mutationIterations harderDraws =
   Inr ([''all-lowercase'', ''unique-messages'']
          # replicate 13 [''all-lowercase'', ''no-punctuation'']
          @ [[''all-lowercase'', ''unique-messages'']], [])"
  by code_simp

lemma calculateDifficulty_more_examples:
  "calculateDifficulty rules [''unique-messages'', ''no-punctuation'', ''all-lowercase''] = Inr 8"
  "calculateDifficulty rules [''unique-messages'', ''no-punctuation''] = Inr 7"
  "calculateDifficulty rules [''all-lowercase'', ''no-punctuation''] = Inr 3"
  "calculateDifficulty rules [''all-lowercase'', ''unique-messages''] = Inr 6"
  by code_simp+

subsection \<open>Runs that return\<close>

lemma randomElement_at:
  assumes "j < length arr"
  shows "randomElement arr ((real j + 1 / 2) / real (length arr)) = Some (arr ! j)"
proof -
  from assms have l: "real (length arr) \<noteq> 0" by auto
  then have "(real j + 1 / 2) / real (length arr) * real (length arr) = real j + 1 / 2"
    by simp
  moreover have "\<lfloor>real j + 1 / 2\<rfloor> = int j" by linarith
  ultimately show ?thesis using assms by (simp add: randomElement_def)
qed

lemma toggleUntilValid_accepted:
  assumes "randomElement rs u = Some r"
    and "distinct S"
    and "isValidRuleset rs (if id' r \<in> set S then Set_delete S (id' r) else Set_add S (id' r))"
  shows "toggleUntilValid rs S (u # us) =
           Inr (if id' r \<in> set S then Set_delete S (id' r) else Set_add S (id' r), us)"
proof (cases "id' r \<in> set S")
  case True
  with assms show ?thesis by (simp add: new_Set_distinct Let_def)
next
  case False
  with assms show ?thesis by (simp add: new_Set_distinct Let_def)
qed

lemma mutateRuleset_same_draw:
  assumes r: "randomElement rs u = Some r"
    and v: "isValidRuleset rs R"
    and v': "isValidRuleset rs (if id' r \<in> set R then Set_delete R (id' r) else Set_add R (id' r))"
  shows "\<exists>R'. mutateRuleset rs R mutationAmount (u # u # u # us) = Inr (R', us)
              \<and> set R' \<subseteq> insert (id' r) (set R)"
proof -
  define m where "m = id' r"
  define F where "F S = (if m \<in> set S then Set_delete S m else Set_add S m)" for S
  have setF: "set (F S) = (if m \<in> set S then set S - {m} else insert m (set S))" for S
    by (simp add: F_def set_Set_add set_Set_delete)
  have dF: "distinct (F S)" if "distinct S" for S
    using that by (simp add: F_def distinct_Set_add distinct_Set_delete)
  define S0 where "S0 = new_Set R"
  have d0: "distinct S0" and s0: "set S0 = set R"
    by (simp_all add: S0_def distinct_new_Set set_new_Set)
  have "isValidRuleset rs (F R)" using v' unfolding F_def m_def .
  then have odd_valid: "isValidRuleset rs S" if "set S = set (F R)" for S
    using that isValidRuleset_cong [of S "F R" rs] by blast
  have even_valid: "isValidRuleset rs S" if "set S = set R" for S
    using v that isValidRuleset_cong [of S R rs] by simp
  have step: "toggleUntilValid rs (new_Set S) (u # vs) = Inr (F S, vs)"
    if "distinct S" "isValidRuleset rs (F S)" for S vs
    using toggleUntilValid_accepted [OF r that(1), of vs] that(2) new_Set_distinct [OF that(1)]
    unfolding F_def m_def by simp
  have s1: "set (F S0) = set (F R)" using s0 by (simp add: setF)
  have s2: "set (F (F S0)) = set R" using s0 by (auto simp: setF)
  have s3: "set (F (F (F S0))) = set (F R)" using s0 by (auto simp: setF)
  have t1: "toggleUntilValid rs (new_Set S0) (u # u # u # us) = Inr (F S0, u # u # us)"
    by (rule step [OF d0 odd_valid [OF s1]])
  have t2: "toggleUntilValid rs (new_Set (F S0)) (u # u # us) = Inr (F (F S0), u # us)"
    by (rule step [OF dF [OF d0] even_valid [OF s2]])
  have t3: "toggleUntilValid rs (new_Set (F (F S0))) (u # us) = Inr (F (F (F S0)), us)"
    by (rule step [OF dF [OF dF [OF d0]] odd_valid [OF s3]])
  have "mutateLoop rs S0 (Suc (Suc (Suc 0))) (u # u # u # us) = Inr (F (F (F S0)), us)"
    by (simp only: mutateLoop.simps t1 t2 t3 sum.case prod.case)
  then have "mutateRuleset rs R mutationAmount (u # u # u # us) = Inr (F (F (F S0)), us)"
    by (simp only: mutateRuleset_def mutationAmount_def numeral_3_eq_3 S0_def)
  moreover have "set (F (F (F S0))) \<subseteq> insert (id' r) (set R)"
    using s3 by (auto simp: setF m_def split: if_splits)
  ultimately show ?thesis by blast
qed

lemma mutatedRulesets_same_draw:
  assumes r: "randomElement rs u = Some r"
    and v: "isValidRuleset rs R"
    and v': "isValidRuleset rs (if id' r \<in> set R then Set_delete R (id' r) else Set_add R (id' r))"
  shows "\<exists>ms. mutatedRulesets rs R n (concat (replicate n [u, u, u]) @ us) = Inr (ms, us)
              \<and> (\<forall>m \<in> set ms. set m \<subseteq> insert (id' r) (set R))"
proof (induction n)
  case 0
  then show ?case by simp
next
  case (Suc n)
  then obtain ms where
    ms: "mutatedRulesets rs R n (concat (replicate n [u, u, u]) @ us) = Inr (ms, us)"
    and sub: "\<forall>m \<in> set ms. set m \<subseteq> insert (id' r) (set R)" by blast
  from mutateRuleset_same_draw [OF r v v', of "concat (replicate n [u, u, u]) @ us"]
  obtain R' where
    R': "mutateRuleset rs R mutationAmount (u # u # u # concat (replicate n [u, u, u]) @ us) =
           Inr (R', concat (replicate n [u, u, u]) @ us)"
    and s: "set R' \<subseteq> insert (id' r) (set R)" by blast
  from R' ms have "mutatedRulesets rs R (Suc n) (concat (replicate (Suc n) [u, u, u]) @ us) =
      Inr (R' # ms, us)" by simp
  with s sub show ?case by auto
qed

lemma calculateDifficulty_returns:
  "\<forall>i \<in> set R. findRule rs i \<noteq> None \<Longrightarrow> \<exists>d. calculateDifficulty rs R = Inr d"
  by (simp add: calculateDifficulty_eq)

lemma filterByDifficulty_returns:
  assumes "\<forall>c \<in> set cs. \<forall>i \<in> set c. findRule rs i \<noteq> None"
    and "\<forall>i \<in> set R. findRule rs i \<noteq> None"
  shows "\<exists>kept. filterByDifficulty keep rs R cs = Inr kept"
  using assms
proof (induction cs)
  case Nil
  then show ?case by simp
next
  case (Cons c cs)
  then obtain kept where k: "filterByDifficulty keep rs R cs = Inr kept" by auto
  from Cons.prems obtain dc dcur where
    "calculateDifficulty rs c = Inr dc" "calculateDifficulty rs R = Inr dcur"
    using calculateDifficulty_returns [of c rs] calculateDifficulty_returns [of R rs] by auto
  with k show ?case by simp
qed

lemma nearest_returns:
  assumes r: "randomElement rs u = Some r"
    and v: "isValidRuleset rs R"
    and v': "isValidRuleset rs (if id' r \<in> set R then Set_delete R (id' r) else Set_add R (id' r))"
    and f: "\<forall>i \<in> set R. findRule rs i \<noteq> None"
  shows "(\<exists>res. makeEasierRuleset rs R (concat (replicate mutationIterations [u, u, u]) @ us)
                  = Inr (res, us))
       \<and> (\<exists>res. makeHarderRuleset rs R (concat (replicate mutationIterations [u, u, u]) @ us)
                  = Inr (res, us))"
proof -
  from mutatedRulesets_same_draw [OF r v v', of mutationIterations us] obtain ms where
    ms: "mutatedRulesets rs R mutationIterations
           (concat (replicate mutationIterations [u, u, u]) @ us) = Inr (ms, us)"
    and sub: "\<forall>m \<in> set ms. set m \<subseteq> insert (id' r) (set R)" by blast
  from randomElement_mem [OF r] have "findRule rs (id' r) \<noteq> None"
    using findRule_Some_iff [of rs "id' r"] by blast
  with sub f have c: "\<forall>c \<in> set ms. \<forall>i \<in> set c. findRule rs i \<noteq> None" by blast
  from filterByDifficulty_returns [OF c f] obtain lower where
    l: "filterByDifficulty (\<lambda>d dcur. d < dcur) rs R ms = Inr lower" by blast
  from filterByDifficulty_returns [OF c f] obtain higher where
    h: "filterByDifficulty (\<lambda>d dcur. d > dcur) rs R ms = Inr higher" by blast
  from ms l have "\<exists>res. makeEasierRuleset rs R
      (concat (replicate mutationIterations [u, u, u]) @ us) = Inr (res, us)"
    by (simp add: makeEasierRuleset_def split: option.splits)
  moreover from ms h have "\<exists>res. makeHarderRuleset rs R
      (concat (replicate mutationIterations [u, u, u]) @ us) = Inr (res, us)"
    by (simp add: makeHarderRuleset_def split: option.splits)
  ultimately show ?thesis by blast
qed

lemma rules_Nil_addable: "isValidRuleset rules (Set_add [] (id' (rules ! 0)))" "0 < length rules"
  by code_simp+

lemma rules_nearest_returns:
  assumes v: "isValidRuleset rules R" and f: "\<forall>i \<in> set R. findRule rules i \<noteq> None"
  shows "\<exists>us. (\<exists>res. makeEasierRuleset rules R us = Inr (res, []))
            \<and> (\<exists>res. makeHarderRuleset rules R us = Inr (res, []))"
proof -
  have "\<exists>j. j < length rules \<and>
      isValidRuleset rules (if id' (rules ! j) \<in> set R then Set_delete R (id' (rules ! j))
                            else Set_add R (id' (rules ! j)))"
  proof (cases R)
    case Nil
    with rules_Nil_addable show ?thesis by auto
  next
    case (Cons m R1)
    with f have "findRule rules m \<noteq> None" by simp
    then have "m \<in> id' ` set rules" using findRule_Some_iff [of rules m] by blast
    then obtain j where j: "j < length rules" "id' (rules ! j) = m"
      by (auto simp: in_set_conv_nth)
    have "isValidRuleset rules (Set_delete R m)"
      by (rule isValidRuleset_subset [OF v]) (auto simp: set_Set_delete)
    with j Cons show ?thesis by auto
  qed
  then obtain j where j: "j < length rules"
    and v': "isValidRuleset rules (if id' (rules ! j) \<in> set R then Set_delete R (id' (rules ! j))
                            else Set_add R (id' (rules ! j)))" by blast
  from nearest_returns [OF randomElement_at [OF j] v v' f, of "[]"] show ?thesis
    by (simp only: append_Nil2) blast
qed

subsection \<open>What is returned\<close>

text \<open>
  C5. Whenever \<open>makeEasierRuleset\<close> returns for a ruleset \<open>R\<close>, it returns either
  \<open>success = False\<close> with \<open>R\<close> itself, or \<open>success = True\<close> with a valid ruleset whose
  difficulty is strictly lower than that of \<open>R\<close>; \<open>makeHarderRuleset\<close> does the same with a
  strictly higher difficulty. Whether they return depends on the draws (a round of
  \<open>mutateRuleset\<close> repeats until a draw is accepted); for every valid ruleset of the catalog
  \<open>rules\<close> there are draws on which both return.
\<close>

theorem nearest_ruleset_result:
  "(makeEasierRuleset rs R us = Inr (res, us') \<longrightarrow>
      (\<not> success res \<and> ruleset res = R) \<or>
      (success res \<and> isValidRuleset rs (ruleset res) \<and>
       (\<exists>d' d. calculateDifficulty rs (ruleset res) = Inr d'
           \<and> calculateDifficulty rs R = Inr d \<and> d' < d)))
   \<and> (makeHarderRuleset rs R vs = Inr (res', vs') \<longrightarrow>
      (\<not> success res' \<and> ruleset res' = R) \<or>
      (success res' \<and> isValidRuleset rs (ruleset res') \<and>
       (\<exists>d' d. calculateDifficulty rs (ruleset res') = Inr d'
           \<and> calculateDifficulty rs R = Inr d \<and> d' > d)))
   \<and> (isValidRuleset rules R \<longrightarrow> (\<forall>i \<in> set R. findRule rules i \<noteq> None) \<longrightarrow>
        (\<exists>ws. (\<exists>res. makeEasierRuleset rules R ws = Inr (res, []))
            \<and> (\<exists>res. makeHarderRuleset rules R ws = Inr (res, []))))"
  using makeEasierRuleset_result [of rs R us res us']
    makeHarderRuleset_result [of rs R vs res' vs'] rules_nearest_returns [of R]
  by blast

lemma nearest_witness_facts:
  "isValidRuleset rules [''unique-messages'', ''no-punctuation'', ''all-lowercase'']"
  "\<forall>i \<in> set [''unique-messages'', ''no-punctuation'', ''all-lowercase''].
     findRule rules i \<noteq> None"
  by code_simp+

theorem nearest_ruleset_result_witness:
  "makeEasierRuleset rules [''unique-messages'', ''no-punctuation'', ''all-lowercase'']
     easierDraws =
     Inr (\<lparr>success = True, ruleset = [''all-lowercase'', ''no-punctuation'']\<rparr>, [])
   \<and> isValidRuleset rules [''all-lowercase'', ''no-punctuation'']
   \<and> calculateDifficulty rules [''all-lowercase'', ''no-punctuation''] = Inr 3
   \<and> calculateDifficulty rules [''unique-messages'', ''no-punctuation'', ''all-lowercase'']
       = Inr 8
   \<and> makeHarderRuleset rules [''unique-messages'', ''no-punctuation'', ''all-lowercase'']
       easierDraws =
     Inr (\<lparr>success = False,
           ruleset = [''unique-messages'', ''no-punctuation'', ''all-lowercase'']\<rparr>, [])
   \<and> makeHarderRuleset rules [''all-lowercase''] harderDraws =
     Inr (\<lparr>success = True, ruleset = [''all-lowercase'', ''unique-messages'']\<rparr>, [])
   \<and> isValidRuleset rules [''all-lowercase'', ''unique-messages'']
   \<and> (\<exists>ws. (\<exists>res. makeEasierRuleset rules
                     [''unique-messages'', ''no-punctuation'', ''all-lowercase''] ws
                   = Inr (res, []))
           \<and> (\<exists>res. makeHarderRuleset rules
                     [''unique-messages'', ''no-punctuation'', ''all-lowercase''] ws
                   = Inr (res, [])))"
proof -
  let ?R = "[''unique-messages'', ''no-punctuation'', ''all-lowercase'']"
  let ?e = "\<lparr>success = True, ruleset = [''all-lowercase'', ''no-punctuation'']\<rparr>"
  let ?h = "\<lparr>success = True, ruleset = [''all-lowercase'', ''unique-messages'']\<rparr>"
  have se: "success ?e" "ruleset ?e = [''all-lowercase'', ''no-punctuation'']"
    and sh: "success ?h" "ruleset ?h = [''all-lowercase'', ''unique-messages'']"
    by simp_all
  from nearest_ruleset_result
      [where rs = rules and R = ?R and us = easierDraws and res = ?e and us' = "[]"]
    makeEasierRuleset_example se(1)
  have "isValidRuleset rules (ruleset ?e)" by blast
  then have a: "isValidRuleset rules [''all-lowercase'', ''no-punctuation'']"
    by (simp only: se(2))
  from nearest_ruleset_result
      [where rs = rules and R = "[''all-lowercase'']" and vs = harderDraws and res' = ?h
        and vs' = "[]"]
    makeHarderRuleset_example sh(1)
  have "isValidRuleset rules (ruleset ?h)" by blast
  then have b: "isValidRuleset rules [''all-lowercase'', ''unique-messages'']"
    by (simp only: sh(2))
  from nearest_ruleset_result [where R = ?R] nearest_witness_facts
  have c: "\<exists>ws. (\<exists>res. makeEasierRuleset rules ?R ws = Inr (res, []))
           \<and> (\<exists>res. makeHarderRuleset rules ?R ws = Inr (res, []))"
    by blast
  from a b c makeEasierRuleset_example makeHarderRuleset_fails_example
    makeHarderRuleset_example calculateDifficulty_more_examples(1,3)
  show ?thesis by (simp only: simp_thms)
qed

text \<open>
  The comparators of \<open>makeEasierRuleset\<close> and \<open>makeHarderRuleset\<close> do not look at their
  second argument and are positive on every candidate that passed the filter. On such a
  comparator the sort leaves the array as it is, so \<^verbatim>\<open>pop\<close> takes the candidate that
  was generated last.
\<close>

lemma countRun_nonnegative:
  "\<forall>x \<in> set xs. \<forall>b. 0 \<le> f x b \<Longrightarrow> countRun f False prev xs = length xs"
  by (induction xs arbitrary: prev) (simp_all add: Let_def not_less [symmetric])

lemma arraySort_positive:
  assumes "\<forall>a \<in> set xs. \<forall>b. 0 < f a b"
  shows "arraySort f xs = xs"
proof (cases "length xs < 2")
  case True
  then show ?thesis by (simp add: arraySort_def)
next
  case False
  then obtain a b zs where xs: "xs = a # b # zs"
    by (cases xs; cases "tl xs") auto
  from assms xs have d: "\<not> f b a < 0" by (simp add: less_imp_le not_less)
  from assms xs have "\<forall>x \<in> set zs. \<forall>c. 0 \<le> f x c" by (simp add: less_imp_le)
  then have "countRun f False b zs = length zs" by (rule countRun_nonnegative)
  with d xs have "countAndMakeRun f xs = (xs, [])"
    by (simp add: countAndMakeRun_def)
  with False show ?thesis by (simp add: arraySort_def)
qed

lemma difficultyOf_eq: "calculateDifficulty rs R = Inr d \<Longrightarrow> difficultyOf rs R = d"
  by (simp add: difficultyOf_def)

lemma makeEasierRuleset_last:
  assumes "makeEasierRuleset rs R us = Inr (res, us')" and "success res"
  shows "\<exists>mutated lower. mutatedRulesets rs R mutationIterations us = Inr (mutated, us')
           \<and> length mutated = mutationIterations
           \<and> filterByDifficulty (\<lambda>d dcur. d < dcur) rs R mutated = Inr lower
           \<and> lower \<noteq> [] \<and> ruleset res = last lower"
proof -
  from assms(1) obtain mutated us1 lower where
    m: "mutatedRulesets rs R mutationIterations us = Inr (mutated, us1)"
    and f: "filterByDifficulty (\<lambda>d dcur. d < dcur) rs R mutated = Inr lower"
    by (auto simp: makeEasierRuleset_def split: sum.splits prod.splits)
  have "\<forall>a \<in> set lower. \<forall>b::string list. 0 < difficultyOf rs R - difficultyOf rs a"
    using filterByDifficulty_result [OF f] by (auto simp: difficultyOf_eq)
  then have "arraySort (\<lambda>a b. difficultyOf rs R - difficultyOf rs a) lower = lower"
    by (rule arraySort_positive)
  with assms m f have "lower \<noteq> []" "ruleset res = last lower" "us1 = us'"
    by (auto simp: makeEasierRuleset_def pop_def split: if_splits)
  with m f mutatedRulesets_valid [OF m] show ?thesis by auto
qed

lemma makeHarderRuleset_last:
  assumes "makeHarderRuleset rs R us = Inr (res, us')" and "success res"
  shows "\<exists>mutated higher. mutatedRulesets rs R mutationIterations us = Inr (mutated, us')
           \<and> length mutated = mutationIterations
           \<and> filterByDifficulty (\<lambda>d dcur. d > dcur) rs R mutated = Inr higher
           \<and> higher \<noteq> [] \<and> ruleset res = last higher"
proof -
  from assms(1) obtain mutated us1 higher where
    m: "mutatedRulesets rs R mutationIterations us = Inr (mutated, us1)"
    and f: "filterByDifficulty (\<lambda>d dcur. d > dcur) rs R mutated = Inr higher"
    by (auto simp: makeHarderRuleset_def split: sum.splits prod.splits)
  have "\<forall>a \<in> set higher. \<forall>b::string list. 0 < difficultyOf rs a - difficultyOf rs R"
    using filterByDifficulty_result [OF f] by (auto simp: difficultyOf_eq)
  then have "arraySort (\<lambda>a b. difficultyOf rs a - difficultyOf rs R) higher = higher"
    by (rule arraySort_positive)
  with assms m f have "higher \<noteq> []" "ruleset res = last higher" "us1 = us'"
    by (auto simp: makeHarderRuleset_def pop_def split: if_splits)
  with m f mutatedRulesets_valid [OF m] show ?thesis by auto
qed

text \<open>
  C4. Both functions generate \<open>mutationIterations\<close> = 15 candidates of three rounds each
  and keep those of strictly lower (higher) difficulty, but they do not return the kept
  candidate that is closest in difficulty. From a ruleset of difficulty 8 the candidates
  have the difficulties 3, thirteen times 7, and 3, and \<open>makeEasierRuleset\<close> returns one of
  difficulty 3; from a ruleset of difficulty 1 the candidates have the difficulties 6,
  thirteen times 3, and 6, and \<open>makeHarderRuleset\<close> returns one of difficulty 6.
\<close>

theorem makeEasierRuleset_returns_last_candidate:
  "mutatedRulesets rules [''unique-messages'', ''no-punctuation'', ''all-lowercase'']
     mutationIterations easierDraws =
     Inr ([''all-lowercase'', ''no-punctuation'']
            # replicate 13 [''unique-messages'', ''no-punctuation'']
            @ [[''all-lowercase'', ''no-punctuation'']], [])
   \<and> calculateDifficulty rules [''unique-messages'', ''no-punctuation'', ''all-lowercase'']
       = Inr 8
   \<and> calculateDifficulty rules [''unique-messages'', ''no-punctuation''] = Inr 7
   \<and> calculateDifficulty rules [''all-lowercase'', ''no-punctuation''] = Inr 3
   \<and> makeEasierRuleset rules [''unique-messages'', ''no-punctuation'', ''all-lowercase'']
       easierDraws =
     Inr (\<lparr>success = True, ruleset = [''all-lowercase'', ''no-punctuation'']\<rparr>, [])
   \<and> mutatedRulesets rules [''all-lowercase''] mutationIterations harderDraws =
     Inr ([''all-lowercase'', ''unique-messages'']
            # replicate 13 [''all-lowercase'', ''no-punctuation'']
            @ [[''all-lowercase'', ''unique-messages'']], [])
   \<and> calculateDifficulty rules [''all-lowercase''] = Inr 1
   \<and> calculateDifficulty rules [''all-lowercase'', ''unique-messages''] = Inr 6
   \<and> makeHarderRuleset rules [''all-lowercase''] harderDraws =
     Inr (\<lparr>success = True, ruleset = [''all-lowercase'', ''unique-messages'']\<rparr>, [])"
  using mutatedRulesets_easier_example mutatedRulesets_harder_example
    makeEasierRuleset_example makeHarderRuleset_example
    calculateDifficulty_more_examples calculateDifficulty_examples
  by simp

section \<open>Empty rulesets\<close>

lemma growRuleset_Nil:
  "growRuleset rs d [] us =
     (if 0 < d \<and> getAdditionalValidRules rs [] \<noteq> []
      then (case us of [] \<Rightarrow> Inl DrawsExhausted
            | u # us' \<Rightarrow> (case randomElement (getAdditionalValidRules rs []) u of
                 None \<Rightarrow> Inl TypeError
               | Some x \<Rightarrow> growRuleset rs d (Set_add [] x) us'))
      else Inr ([], us))"
  by (subst growRuleset.simps) (simp add: calculateDifficulty_def Let_def)

lemma growRuleset_nonempty:
  "growRuleset rs d R us = Inr (R', us') \<Longrightarrow> R \<noteq> [] \<Longrightarrow> R' \<noteq> []"
proof (induction rs d R us rule: growRuleset.induct)
  case (1 rs d R us)
  from "1.prems"(1) obtain w where w: "calculateDifficulty rs R = Inr w"
    by (subst (asm) growRuleset.simps) (auto split: sum.splits)
  show ?case
  proof (cases "of_int w < d \<and> length (getAdditionalValidRules rs R) \<noteq> 0")
    case False
    with "1.prems" w have "R' = R"
      by (subst (asm) growRuleset.simps) (auto simp: Let_def split: if_splits)
    with "1.prems" show ?thesis by simp
  next
    case True
    with "1.prems"(1) w obtain u ut x where
      us: "us = u # ut" and x: "randomElement (getAdditionalValidRules rs R) u = Some x"
      and g: "growRuleset rs d (Set_add R x) ut = Inr (R', us')"
      by (subst (asm) growRuleset.simps)
         (auto simp: Let_def split: if_splits list.splits option.splits)
    from "1.prems"(2) have v: "Set_add R x \<noteq> []" by (simp add: Set_add_def)
    from True have t1: "of_int w < d" and t2: "length (getAdditionalValidRules rs R) \<noteq> 0"
      by simp_all
    from "1.IH" [OF w t1 refl t2 us x g v] show ?thesis .
  qed
qed

lemma growRuleset_empty_iff:
  assumes "growRuleset rs d [] us = Inr (R, us')"
  shows "R = [] \<longleftrightarrow> (d \<le> 0 \<or> getAdditionalValidRules rs [] = [])"
proof (cases "0 < d \<and> getAdditionalValidRules rs [] \<noteq> []")
  case False
  with assms show ?thesis by (auto simp: growRuleset_Nil)
next
  case True
  with assms obtain u ut x where
    g: "growRuleset rs d (Set_add [] x) ut = Inr (R, us')"
    by (auto simp: growRuleset_Nil split: list.splits option.splits)
  have "Set_add [] x \<noteq> []" by (simp add: Set_add_def)
  from growRuleset_nonempty [OF g this] True show ?thesis by auto
qed

lemma randomValidRuleset_empty:
  "d \<le> 0 \<or> getAdditionalValidRules rs [] = [] \<Longrightarrow>
   randomValidRuleset rs d us n = Inr ([], us)"
proof (induction rs d us n rule: randomValidRuleset.induct)
  case (1 rs d us n)
  then have g: "growRuleset rs d [] us = Inr ([], us)"
    by (auto simp: growRuleset_Nil)
  show ?case
  proof (cases "n < 10")
    case True
    with g "1.IH" [OF g refl] "1.prems" show ?thesis
      by (subst randomValidRuleset.simps) simp
  next
    case False
    with g show ?thesis by (subst randomValidRuleset.simps) simp
  qed
qed

lemma randomValidRuleset_empty_iff:
  "randomValidRuleset rs d us n = Inr (R, us') \<Longrightarrow>
   R = [] \<longleftrightarrow> (d \<le> 0 \<or> getAdditionalValidRules rs [] = [])"
proof (induction rs d us n rule: randomValidRuleset.induct)
  case (1 rs d us n)
  from "1.prems" obtain R1 us1 where g: "growRuleset rs d [] us = Inr (R1, us1)"
    by (subst (asm) randomValidRuleset.simps) (auto split: sum.splits)
  show ?case
  proof (cases "length R1 = 0 \<and> n < 10")
    case True
    with "1.prems" g have "randomValidRuleset rs d us1 (n + 1) = Inr (R, us')"
      by (subst (asm) randomValidRuleset.simps) simp
    from "1.IH" [OF g refl True this] show ?thesis .
  next
    case False
    with "1.prems" g have "R = R1"
      by (subst (asm) randomValidRuleset.simps) auto
    with growRuleset_empty_iff [OF g] show ?thesis by simp
  qed
qed

lemma getAdditionalValidRules_rules_Nil: "getAdditionalValidRules rules [] \<noteq> []"
  by code_simp

lemma empty_examples:
  "randomValidRuleset rules 0 [] 0 = Inr ([], [])"
  "randomValidRuleset selfConflicting 3 [0.5] 0 = Inr ([], [0.5])"
  "evaluateChange selfConflicting 18000001 18000002 idleState [0.5] =
     Inr \<lparr>engine = \<lparr>activeRules = [], violationHistoryForThisRuleset = [],
                     lastRulesetChange = 18000002\<rparr>,
          replacement = Some (LongTime, []), failRatioRead = None, drawsLeft = [0.5]\<rparr>"
  "length (violationHistoryForThisRuleset idleState) = 2"
  "lastRulesetChange idleState = 0"
  by code_simp+

text \<open>
  C3 as stated fails: with a target difficulty of 0 on the catalog \<open>rules\<close>, and with a
  positive target on a catalog whose only rule conflicts with itself,
  \<open>randomValidRuleset\<close> returns the empty ruleset as its value; \<open>evaluateChange\<close> then
  installs it (a replacement is reported, the history of two records is cleared and the
  clock is reset).
\<close>

theorem empty_ruleset_is_returned_and_installed:
  "randomValidRuleset rules 0 [] 0 = Inr ([], [])
   \<and> randomValidRuleset selfConflicting 3 [0.5] 0 = Inr ([], [0.5])
   \<and> evaluateChange selfConflicting 18000001 18000002 idleState [0.5] =
       Inr \<lparr>engine = \<lparr>activeRules = [], violationHistoryForThisRuleset = [],
                       lastRulesetChange = 18000002\<rparr>,
            replacement = Some (LongTime, []), failRatioRead = None, drawsLeft = [0.5]\<rparr>
   \<and> length (violationHistoryForThisRuleset idleState) = 2
   \<and> lastRulesetChange idleState = 0"
  using empty_examples by simp

text \<open>
  C3, amended. \<open>randomValidRuleset\<close> generates again while the ruleset is empty and the
  attempt number is below 10, and then returns what it has. It returns the empty ruleset
  as a normal result, when the target difficulty is not positive or no rule of the
  catalog is valid alone, and only then; it has consumed no draw. The regeneration of
  \<open>evaluateChange\<close> installs whatever ruleset \<open>randomValidRuleset\<close> returns. On the catalog
  \<open>rules\<close> a positive target never gives the empty ruleset.
\<close>

theorem randomValidRuleset_empty_result:
  "randomValidRuleset rs d us n =
     (case growRuleset rs d [] us of
        Inl e \<Rightarrow> Inl e
      | Inr (R0, us0) \<Rightarrow>
          if R0 = [] \<and> n < 10 then randomValidRuleset rs d us0 (n + 1) else Inr (R0, us0))
   \<and> (d \<le> 0 \<or> getAdditionalValidRules rs [] = [] \<longrightarrow>
      randomValidRuleset rs d us n = Inr ([], us))
   \<and> (randomValidRuleset rs d us n = Inr (R, us') \<longrightarrow>
        (R = [] \<longleftrightarrow> d \<le> 0 \<or> getAdditionalValidRules rs [] = []))
   \<and> (calculateDifficulty rs (activeRules st) = Inr w \<longrightarrow>
        randomValidRuleset rs (of_int (initialRoughDifficulty + w) / 2) us 0 = Inr (R', us'') \<longrightarrow>
        changeEntirely rs why now' st fr us =
          Inr \<lparr>engine = updateRules R' now' st, replacement = Some (why, R'),
               failRatioRead = fr, drawsLeft = us''\<rparr>)
   \<and> (0 < d \<longrightarrow> randomValidRuleset rules d us n = Inr (R, us') \<longrightarrow> R \<noteq> [])"
proof (intro conjI impI)
  show "randomValidRuleset rs d us n =
     (case growRuleset rs d [] us of
        Inl e \<Rightarrow> Inl e
      | Inr (R0, us0) \<Rightarrow>
          if R0 = [] \<and> n < 10 then randomValidRuleset rs d us0 (n + 1) else Inr (R0, us0))"
    by (subst randomValidRuleset.simps) (simp split: sum.splits)
next
  assume "d \<le> 0 \<or> getAdditionalValidRules rs [] = []"
  then show "randomValidRuleset rs d us n = Inr ([], us)" by (rule randomValidRuleset_empty)
next
  assume "randomValidRuleset rs d us n = Inr (R, us')"
  then show "R = [] \<longleftrightarrow> d \<le> 0 \<or> getAdditionalValidRules rs [] = []"
    by (rule randomValidRuleset_empty_iff)
next
  assume "calculateDifficulty rs (activeRules st) = Inr w"
    "randomValidRuleset rs (of_int (initialRoughDifficulty + w) / 2) us 0 = Inr (R', us'')"
  then show "changeEntirely rs why now' st fr us =
          Inr \<lparr>engine = updateRules R' now' st, replacement = Some (why, R'),
               failRatioRead = fr, drawsLeft = us''\<rparr>"
    by (simp add: changeEntirely_def replaceWith_def)
next
  assume "0 < d" "randomValidRuleset rules d us n = Inr (R, us')"
  with randomValidRuleset_empty_iff [of rules d us n R us'] getAdditionalValidRules_rules_Nil
  show "R \<noteq> []" by simp
qed

lemma calculateDifficulty_Nil: "calculateDifficulty rs [] = Inr 0"
  by (simp add: calculateDifficulty_def)

theorem randomValidRuleset_empty_result_witness:
  "randomValidRuleset rules 0 [0.5] 10 = Inr ([], [0.5])
   \<and> changeEntirely selfConflicting ByChance 18000002 idleState None [0.5] =
       Inr \<lparr>engine = updateRules [] 18000002 idleState, replacement = Some (ByChance, []),
            failRatioRead = None, drawsLeft = [0.5]\<rparr>
   \<and> randomValidRuleset rules 6 [0.5, 0.2, 0] 0 =
       Inr ([''no-common-words'', ''all-uppercase'', ''unique-messages''], [])
   \<and> [''no-common-words'', ''all-uppercase'', ''unique-messages''] \<noteq> []"
proof -
  have "(0::real) \<le> 0 \<or> getAdditionalValidRules rules [] = []" by simp
  with randomValidRuleset_empty_result [where d = 0 and rs = rules and us = "[0.5]" and n = 10]
  have a: "randomValidRuleset rules 0 [0.5] 10 = Inr ([], [0.5])" by blast
  have c: "calculateDifficulty selfConflicting (activeRules idleState) = Inr 0"
    by (simp add: idleState_def calculateDifficulty_Nil)
  have r: "randomValidRuleset selfConflicting (of_int (initialRoughDifficulty + 0) / 2) [0.5] 0 =
      Inr ([], [0.5])"
    using empty_examples(2) by (simp add: initialRoughDifficulty_def)
  from randomValidRuleset_empty_result
      [where rs = selfConflicting and st = idleState and w = 0 and us = "[0.5]"
        and R' = "[]" and us'' = "[0.5]" and why = ByChance and now' = 18000002 and fr = None]
    c r
  have b: "changeEntirely selfConflicting ByChance 18000002 idleState None [0.5] =
       Inr \<lparr>engine = updateRules [] 18000002 idleState, replacement = Some (ByChance, []),
            failRatioRead = None, drawsLeft = [0.5]\<rparr>"
    by blast
  have p: "(0::real) < 6" by simp
  from randomValidRuleset_empty_result
      [where d = 6 and us = "[0.5, 0.2, 0]" and n = 0
        and R = "[''no-common-words'', ''all-uppercase'', ''unique-messages'']" and us' = "[]"]
    validity_examples(4) p
  have c: "[''no-common-words'', ''all-uppercase'', ''unique-messages''] \<noteq> []" by blast
  from a b c validity_examples(4) show ?thesis by (simp only: simp_thms)
qed

section \<open>Failing checks\<close>

lemma Promise_all_violationPromise:
  "Promise_all (map (violationPromise check message app) xs) =
     (if \<exists>r \<in> set xs. checkFails (check r message app) then Inl CheckError
      else Inr (map (\<lambda>r. if checkFalse (check r message app) then Some r else None) xs))"
proof (induction xs)
  case Nil
  then show ?case by simp
next
  case (Cons x xs)
  show ?case
  proof (cases "check x message app")
    case (Returns b)
    with Cons show ?thesis
      by (simp add: violationPromise_def checkFails_def checkFalse_def)
  next
    case (Resolves b)
    with Cons show ?thesis
      by (simp add: violationPromise_def checkFails_def checkFalse_def)
  next
    case Throws
    then show ?thesis by (simp add: violationPromise_def checkFails_def)
  next
    case Rejects
    then show ?thesis by (simp add: violationPromise_def checkFails_def)
  qed
qed

lemma defined_violations:
  "map the (filter (\<lambda>violation. violation \<noteq> None) (map (\<lambda>r. if P r then Some r else None) xs))
     = filter P xs"
  by (induction xs) auto

text \<open>
  C1, amended. \<open>getViolations\<close> is all or nothing: when the check of some active rule
  throws or rejects, the call as a whole fails with that error and returns no list of
  violations; otherwise it returns the active rules whose check was false, in the order
  of the catalog.
\<close>

theorem getViolations_all_or_nothing:
  "getViolations check rs active message app =
     (if \<exists>rule \<in> set rs. id' rule \<in> set active \<and> checkFails (check rule message app)
      then Inl CheckError
      else Inr (filter (\<lambda>rule. id' rule \<in> set active \<and> checkFalse (check rule message app)) rs))"
proof -
  let ?act = "filter (\<lambda>rule. id' rule \<in> set active) rs"
  have f: "filter (\<lambda>r. checkFalse (check r message app)) ?act =
          filter (\<lambda>rule. id' rule \<in> set active \<and> checkFalse (check rule message app)) rs"
    by (simp add: conj_commute)
  have e: "(\<exists>r \<in> set ?act. checkFails (check r message app)) \<longleftrightarrow>
      (\<exists>rule \<in> set rs. id' rule \<in> set active \<and> checkFails (check rule message app))"
    by auto
  have "getViolations check rs active message app =
      (if \<exists>r \<in> set ?act. checkFails (check r message app) then Inl CheckError
       else Inr (filter (\<lambda>r. checkFalse (check r message app)) ?act))"
    unfolding getViolations_def Let_def Promise_all_violationPromise
    by (simp only: defined_violations if_distrib [of "case_sum Inl (\<lambda>vs. Inr
          (map the (filter (\<lambda>violation. violation \<noteq> None) vs)))"] sum.case)
  then show ?thesis by (simp only: f e)
qed

lemma getViolations_examples:
  "getViolations exampleCheck rules [''no-spaces'', ''unique-messages''] ''a b'' () = Inl CheckError"
  "exampleCheck (rules ! 7) ''a b'' () = Returns False"
  "id' (rules ! 7) = ''no-spaces''"
  "getViolations exampleCheck rules [''no-spaces'', ''no-punctuation''] ''a b'' () = Inr [rules ! 7]"
  by code_simp+

text \<open>
  C1 as stated fails: with \<^verbatim>\<open>no-spaces\<close> and \<^verbatim>\<open>unique-messages\<close> active and the
  message \<open>a b\<close>, the check of \<^verbatim>\<open>no-spaces\<close> returns false and the check of
  \<^verbatim>\<open>unique-messages\<close> rejects; the call fails and the violation of \<^verbatim>\<open>no-spaces\<close> is
  not returned. Without the failing rule the same violation is returned.
\<close>

theorem getViolations_rejects_as_a_whole:
  "getViolations exampleCheck rules [''no-spaces'', ''unique-messages''] ''a b'' () = Inl CheckError
   \<and> id' (rules ! 7) = ''no-spaces''
   \<and> exampleCheck (rules ! 7) ''a b'' () = Returns False
   \<and> getViolations exampleCheck rules [''no-spaces'', ''no-punctuation''] ''a b'' () = Inr [rules ! 7]"
  using getViolations_examples by simp

lemma getViolations_witness_facts:
  "(\<exists>rule \<in> set rules. id' rule \<in> set [''no-spaces'', ''unique-messages'']
       \<and> checkFails (exampleCheck rule ''a b'' ())) = True"
  "(\<exists>rule \<in> set rules. id' rule \<in> set [''no-spaces'', ''no-punctuation'']
       \<and> checkFails (exampleCheck rule ''a b'' ())) = False"
  "filter (\<lambda>rule. id' rule \<in> set [''no-spaces'', ''no-punctuation'']
       \<and> checkFalse (exampleCheck rule ''a b'' ())) rules = [rules ! 7]"
  by code_simp+

theorem getViolations_all_or_nothing_witness:
  "getViolations exampleCheck rules [''no-spaces'', ''unique-messages''] ''a b'' () =
     Inl CheckError
   \<and> getViolations exampleCheck rules [''no-spaces'', ''no-punctuation''] ''a b'' () =
     Inr [rules ! 7]"
  using getViolations_all_or_nothing
      [of exampleCheck rules "[''no-spaces'', ''unique-messages'']" "''a b''" "()"]
    getViolations_all_or_nothing
      [of exampleCheck rules "[''no-spaces'', ''no-punctuation'']" "''a b''" "()"]
  by (simp only: getViolations_witness_facts if_True if_False simp_thms)


end
